theory Spec2Isabelle
  imports Complex_Main "HOL-Library.Log_Nat"
begin

section \<open>JavaScript numbers and typed arrays\<close>

text \<open>
  The tensors of the repository hold their elements in a \<^verbatim>\<open>Float32Array\<close> and compute
  with JavaScript numbers.  The arithmetic of these numbers is a parameter of the model:
  every operation the source applies to an element is a field of the record below, and
  nothing is assumed about it unless a statement says so.  \<open>num\<close> injects an integer literal or loop index, \<open>f32\<close>
  is the conversion that a store into a \<^verbatim>\<open>Float32Array\<close> performs, \<open>nan\<close> is the number
  that \<^verbatim>\<open>undefined\<close> becomes when it is used as a number, and \<open>falsy\<close> tells whether a
  number counts as false for the \<^verbatim>\<open>||\<close> operator.  The zero that fills a new typed array,
  and that \<^verbatim>\<open>reset\<close> stores, is \<open>num ops 0\<close>; an element copied from one typed array to
  another is stored as it is.

  Shapes, indices and loop bounds are JavaScript numbers that hold integers; they are
  modelled as \<open>int\<close>, a negative or zero dimension included.  The one computation on
  shapes whose result need not be an integer, the quotient and the products of
  \<^verbatim>\<open>view\<close> and \<^verbatim>\<open>reshape\<close>, is modelled in the double-precision arithmetic of the language,
  which is defined below.
\<close>

record 'a js =
  nan :: 'a
  num :: "int \<Rightarrow> 'a"
  f32 :: "'a \<Rightarrow> 'a"
  fadd :: "'a \<Rightarrow> 'a \<Rightarrow> 'a"
  fmul :: "'a \<Rightarrow> 'a \<Rightarrow> 'a"
  fdiv :: "'a \<Rightarrow> 'a \<Rightarrow> 'a"
  fpow :: "'a \<Rightarrow> 'a \<Rightarrow> 'a"
  fsin :: "'a \<Rightarrow> 'a"
  fcos :: "'a \<Rightarrow> 'a"
  falsy :: "'a \<Rightarrow> bool"

text \<open>
  Reading a typed array outside its bounds yields \<^verbatim>\<open>undefined\<close>, which every use in the
  source turns into a number; writing outside its bounds does nothing.
\<close>

definition ta_get :: "'a js \<Rightarrow> 'a list \<Rightarrow> int \<Rightarrow> 'a" where
  "ta_get ops xs i = (if 0 \<le> i \<and> i < int (length xs) then xs ! nat i else nan ops)"

definition ta_set :: "'a list \<Rightarrow> int \<Rightarrow> 'a \<Rightarrow> 'a list" where
  "ta_set xs i v = (if 0 \<le> i \<and> i < int (length xs) then xs[nat i := v] else xs)"

text \<open>
  The loop \<^verbatim>\<open>for (let i = 0; i < n; i++)\<close>, threading the state it mutates;
  \<open>indices n\<close> lists the values that \<open>i\<close> takes.
\<close>

definition indices :: "int \<Rightarrow> int list" where
  "indices n = map int [0..<nat n]"

definition for_upto :: "int \<Rightarrow> (int \<Rightarrow> 's \<Rightarrow> 's) \<Rightarrow> 's \<Rightarrow> 's" where
  "for_upto n body s = fold body (indices n) s"

text \<open>The loop \<^verbatim>\<open>for (let d = 0; d < n; d += 2)\<close>.\<close>

definition evens :: "int \<Rightarrow> int list" where
  "evens n = map (\<lambda>k. 2 * int k) [0..<nat ((n + 1) div 2)]"

definition for_step2 :: "int \<Rightarrow> (int \<Rightarrow> 's \<Rightarrow> 's) \<Rightarrow> 's \<Rightarrow> 's" where
  "for_step2 n body s = fold body (evens n) s"

text \<open>\<^verbatim>\<open>shape.reduce((acc, dim) => acc * dim, 1)\<close>\<close>

definition product :: "('d :: {one, times}) list \<Rightarrow> 'd" where
  "product shp = fold (\<lambda>dim acc. acc * dim) shp 1"

section \<open>Binary floating-point numbers\<close>

text \<open>
  Rounding to the nearest, ties to even, of IEEE 754.  \<open>round_even r\<close> is the integer
  nearest to \<open>r\<close>, the even one of the two when \<open>r\<close> lies halfway.  The binary exponent
  of a real \<open>x\<close> other than zero is the integer \<open>k\<close> with \<open>2 ^ k \<le> \<bar>x\<bar> < 2 ^ (k + 1)\<close>; it
  is read off the number of bits of the integer part of \<open>\<bar>x\<bar>\<close>, or of \<open>1 / \<bar>x\<bar>\<close> when
  \<open>\<bar>x\<bar> < 1\<close>.  \<open>fround p emin\<close> rounds \<open>x\<close> to the nearest multiple of \<open>2 ^ e\<close>, where
  \<open>e = max (k - p + 1) emin\<close>: to \<open>p\<close> significant bits in the normal range, and to a
  multiple of the least subnormal \<open>2 ^ emin\<close> below it.  \<open>rounded\<close> adds the overflow: a result of magnitude \<open>2 ^ emax\<close>
  or more is an infinity, here \<open>None\<close>.  \<open>binary64\<close> is the rounding of every arithmetic
  operation of the language, \<open>binary32\<close> the rounding of a store into a \<^verbatim>\<open>Float32Array\<close>.
\<close>

definition round_even :: "real \<Rightarrow> int" where
  "round_even r =
     (let f = \<lfloor>r\<rfloor>; d = r - of_int f
      in if d < 1 / 2 then f else if 1 / 2 < d then f + 1 else if even f then f else f + 1)"

definition binary_exponent :: "real \<Rightarrow> int" where
  "binary_exponent x =
     (if 1 \<le> \<bar>x\<bar> then bitlen \<lfloor>\<bar>x\<bar>\<rfloor> - 1 else - bitlen (\<lceil>1 / \<bar>x\<bar>\<rceil> - 1))"

definition fround :: "nat \<Rightarrow> int \<Rightarrow> real \<Rightarrow> real" where
  "fround p emin x =
     (if x = 0 then 0
      else let e = max (binary_exponent x - int p + 1) emin
           in of_int (round_even (x / 2 powi e)) * 2 powi e)"

definition rounded :: "nat \<Rightarrow> int \<Rightarrow> nat \<Rightarrow> real \<Rightarrow> real option" where
  "rounded p emin emax x = (let r = fround p emin x in if 2 ^ emax \<le> \<bar>r\<bar> then None else Some r)"

definition binary64 :: "real \<Rightarrow> real option" where
  "binary64 = rounded 53 (- 1074) 1024"

definition binary32 :: "real \<Rightarrow> real option" where
  "binary32 = rounded 24 (- 149) 128"

text \<open>
  The numbers that \<^verbatim>\<open>view\<close> and \<^verbatim>\<open>reshape\<close> compute with: the finite doubles, an infinity
  and NaN.  These functions multiply, divide and compare with a finite number, for which
  neither the sign of an infinity nor the sign of a zero makes a difference; the model has
  one infinity and one zero.  \<open>dmul\<close> is \<^verbatim>\<open>*\<close> and \<open>ddiv\<close> is \<^verbatim>\<open>/\<close>.
\<close>

datatype number = Finite real | Infinity | NaN

definition dbl :: "real \<Rightarrow> number" where
  "dbl x = (case binary64 x of None \<Rightarrow> Infinity | Some r \<Rightarrow> Finite r)"

fun dmul :: "number \<Rightarrow> number \<Rightarrow> number" where
  "dmul (Finite a) (Finite b) = dbl (a * b)"
| "dmul (Finite a) Infinity = (if a = 0 then NaN else Infinity)"
| "dmul Infinity (Finite b) = (if b = 0 then NaN else Infinity)"
| "dmul Infinity Infinity = Infinity"
| "dmul NaN y = NaN"
| "dmul x NaN = NaN"

fun ddiv :: "number \<Rightarrow> number \<Rightarrow> number" where
  "ddiv (Finite a) (Finite b) = (if b = 0 then (if a = 0 then NaN else Infinity) else dbl (a / b))"
| "ddiv (Finite a) Infinity = Finite 0"
| "ddiv Infinity (Finite b) = Infinity"
| "ddiv Infinity Infinity = NaN"
| "ddiv NaN y = NaN"
| "ddiv x NaN = NaN"

text \<open>\<^verbatim>\<open>shape.reduce((acc, dim) => acc * dim, 1)\<close> on numbers, and a list of integers as numbers.\<close>

definition dprod :: "number list \<Rightarrow> number" where
  "dprod shp = fold (\<lambda>dim acc. dmul acc dim) shp (Finite 1)"

definition numbers :: "int list \<Rightarrow> number list" where
  "numbers shp = map (\<lambda>d. Finite (of_int d)) shp"

section \<open>Tensors and their operations\<close>

datatype error =
    RangeError
  | OnlyOneDimInferred
  | CannotReshape
  | TransposeRank
  | TransposeDims
  | SameSize
  | ShapesMustMatch
  | InvalidPositionalEmbedding
  | UndefinedDim

text \<open>
  The first eight errors are the ones the source raises: \<open>RangeError\<close> by the typed-array
  constructor, the others by a \<^verbatim>\<open>throw new Error(...)\<close> with the message the name
  abbreviates.  In the vocabulary of the specification, \<open>OnlyOneDimInferred\<close>,
  \<open>CannotReshape\<close>, \<open>SameSize\<close> and \<open>ShapesMustMatch\<close> are its \<^verbatim>\<open>ShapeMismatch\<close>,
  \<open>TransposeRank\<close> and \<open>TransposeDims\<close> its \<^verbatim>\<open>UnsupportedTranspose\<close>, and
  \<open>InvalidPositionalEmbedding\<close> its \<^verbatim>\<open>InvalidConfiguration\<close>.

  \<open>UndefinedDim\<close> is not raised by the source: it marks the inputs on which a
  destructuring \<^verbatim>\<open>const [B, T, C] = x.shape\<close> leaves a name undefined, where the model
  stops following the source.  No statement below is about such an input.
\<close>

definition ebind :: "error + 'x \<Rightarrow> ('x \<Rightarrow> error + 'y) \<Rightarrow> error + 'y" where
  "ebind m f = (case m of Inl e \<Rightarrow> Inl e | Inr v \<Rightarrow> f v)"

record ('d, 'a) tensor =
  data :: "'a list"
  shape :: "'d list"
  device :: "string option"
  dtype :: "string option"

text \<open>
  \<^verbatim>\<open>new Float32Array(n)\<close>: zero-filled; a negative length is a \<^verbatim>\<open>RangeError\<close>.  The
  constructor raises the same error for a length above the limit of the engine, which is
  at most \<open>2 ^ 53 - 1\<close>, and when the memory does not suffice.  That limit depends on the
  engine and is left out: the arrays of the model are lists of any length, and a statement
  that an allocation succeeds holds of the source below the limit.
\<close>

definition zero_array :: "'a js \<Rightarrow> nat \<Rightarrow> 'a list" where
  "zero_array ops n = replicate n (num ops 0)"

definition new_array :: "'a js \<Rightarrow> int \<Rightarrow> error + 'a list" where
  "new_array ops n = (if n < 0 then Inl RangeError else Inr (zero_array ops (nat n)))"

text \<open>
  Where the length is the length of another array, as in
  \<^verbatim>\<open>new Float32Array(a.data.length)\<close>, the constructor cannot fail and the model uses
  \<open>zero_array\<close> directly.
\<close>

text \<open>\<^verbatim>\<open>device || "cpu"\<close>: a missing or empty string gives the default.\<close>

definition or_default :: "string option \<Rightarrow> string \<Rightarrow> string" where
  "or_default s d = (case s of None \<Rightarrow> d | Some v \<Rightarrow> if v = [] then d else v)"

text \<open>\<^verbatim>\<open>TensorUtils.zeros\<close> of the streaming transformer module.\<close>

definition zeros :: "'a js \<Rightarrow> int list \<Rightarrow> string option \<Rightarrow> error + (int, 'a) tensor" where
  "zeros ops shp dev =
     (case new_array ops (product shp) of
        Inl e \<Rightarrow> Inl e
      | Inr d \<Rightarrow> Inr \<lparr>data = d, shape = shp, device = Some (or_default dev ''cpu''),
                     dtype = Some ''float32''\<rparr>)"

definition arange :: "'a js \<Rightarrow> int \<Rightarrow> string option \<Rightarrow> error + (int, 'a) tensor" where
  "arange ops end dev =
     ebind (new_array ops end) (\<lambda>d0.
       let d = for_upto end (\<lambda>i d. ta_set d i (f32 ops (num ops i))) d0
       in Inr \<lparr>data = d, shape = [end], device = Some (or_default dev ''cpu''),
                dtype = Some ''float32''\<rparr>)"

text \<open>
  \<^verbatim>\<open>TensorUtils.view\<close>.  The first loop looks for the entry \<open>-1\<close>; \<open>inferDim\<close> is \<open>-1\<close>
  as long as none was seen, and \<open>knownSize\<close> is the product of the other entries.
\<close>

fun view_scan :: "int list \<Rightarrow> int \<Rightarrow> int \<Rightarrow> number \<Rightarrow> error + (int \<times> number)" where
  "view_scan [] i inferDim knownSize = Inr (inferDim, knownSize)"
| "view_scan (d # ds) i inferDim knownSize =
     (if d = - 1
      then (if inferDim \<noteq> - 1 then Inl OnlyOneDimInferred
            else view_scan ds (i + 1) i knownSize)
      else view_scan ds (i + 1) inferDim (dmul knownSize (Finite (of_int d))))"

text \<open>
  The inferred entry is the quotient \<^verbatim>\<open>actualSize / knownSize\<close> of two JavaScript
  numbers, which need not be an integer, and the test \<^verbatim>\<open>expectedSize !== actualSize\<close>
  compares the rounded product of the resolved shape with the length of the buffer: the
  resolved shape is a list of numbers.  The length of a buffer is a finite number, so
  that \<^verbatim>\<open>!==\<close> holds exactly when the two sides are different numbers.
\<close>

definition view :: "('d, 'a) tensor \<Rightarrow> int list \<Rightarrow> error + (number, 'a) tensor" where
  "view t newShape =
     ebind (view_scan newShape 0 (- 1) (Finite 1)) (\<lambda>(inferDim, knownSize).
       let actualSize = Finite (of_nat (length (data t)));
           resolvedShape =
             (if inferDim \<noteq> - 1
              then (numbers newShape)[nat inferDim := ddiv actualSize knownSize]
              else numbers newShape);
           expectedSize = dprod resolvedShape
       in if expectedSize \<noteq> actualSize then Inl CannotReshape
          else Inr \<lparr>data = data t, shape = resolvedShape, device = device t,
                     dtype = dtype t\<rparr>)"

text \<open>
  \<^verbatim>\<open>ServerTensorUtils.reshape\<close>, and the client's \<^verbatim>\<open>TensorUtils.reshape\<close>, which has the same
  body.  Neither looks for the entry \<open>-1\<close>.
\<close>

definition reshape :: "(int, 'a) tensor \<Rightarrow> int list \<Rightarrow> error + (int, 'a) tensor" where
  "reshape t newShape =
     (let expectedSize = dprod (numbers newShape);
          actualSize = Finite (of_nat (length (data t)))
      in if expectedSize \<noteq> actualSize then Inl CannotReshape
         else Inr \<lparr>data = data t, shape = newShape, device = device t, dtype = dtype t\<rparr>)"

text \<open>\<^verbatim>\<open>TensorUtils.transpose\<close>\<close>

definition transpose_t :: "'a js \<Rightarrow> (int, 'a) tensor \<Rightarrow> int \<Rightarrow> int \<Rightarrow> error + (int, 'a) tensor" where
  "transpose_t ops t dim0 dim1 =
     (case shape t of
        [B, T, C] \<Rightarrow>
          if (dim0 = 1 \<and> dim1 = 2) \<or> (dim0 = 2 \<and> dim1 = 1) then
            let newData =
              for_upto B (\<lambda>b. for_upto T (\<lambda>t'. for_upto C (\<lambda>c newData.
                let srcIdx = b * T * C + t' * C + c;
                    dstIdx = b * C * T + c * T + t'
                in if dim0 = 1 \<and> dim1 = 2
                   then ta_set newData dstIdx (ta_get ops (data t) srcIdx)
                   else ta_set newData srcIdx (ta_get ops (data t) dstIdx))))
                (zero_array ops (length (data t)))
            in Inr \<lparr>data = newData,
                     shape = (if dim0 = 1 \<and> dim1 = 2 then [B, C, T] else [B, T, C]),
                     device = device t, dtype = dtype t\<rparr>
          else Inl TransposeDims
      | _ \<Rightarrow> Inl TransposeRank)"

text \<open>\<^verbatim>\<open>TensorUtils.add\<close> of the streaming transformer module; \<^verbatim>\<open>ServerTensorUtils.add\<close> has the same body.\<close>

definition add_t :: "'a js \<Rightarrow> (int, 'a) tensor \<Rightarrow> (int, 'a) tensor \<Rightarrow> error + (int, 'a) tensor" where
  "add_t ops a b =
     (if length (data a) \<noteq> length (data b) then Inl SameSize
      else
        let result = for_upto (int (length (data a))) (\<lambda>i r.
              ta_set r i (f32 ops (fadd ops (ta_get ops (data a) i) (ta_get ops (data b) i))))
              (zero_array ops (length (data a)))
        in Inr \<lparr>data = result, shape = shape a, device = device a, dtype = dtype a\<rparr>)"

text \<open>The client's \<^verbatim>\<open>TensorUtils.add\<close>, which compares the shapes entry by entry.\<close>

definition client_add :: "'a js \<Rightarrow> (int, 'a) tensor \<Rightarrow> (int, 'a) tensor \<Rightarrow> error + (int, 'a) tensor" where
  "client_add ops a b =
     (if length (shape a) \<noteq> length (shape b)
         \<or> \<not> list_all (\<lambda>i. shape a ! i = shape b ! i) [0..<length (shape a)]
      then Inl ShapesMustMatch
      else
        let result = for_upto (int (length (data a))) (\<lambda>i r.
              ta_set r i (f32 ops (fadd ops (ta_get ops (data a) i) (ta_get ops (data b) i))))
              (zero_array ops (length (data a)))
        in Inr \<lparr>data = result, shape = shape a, device = device a,
                 dtype = Some ''float32''\<rparr>)"

definition scale :: "'a js \<Rightarrow> (int, 'a) tensor \<Rightarrow> 'a \<Rightarrow> (int, 'a) tensor" where
  "scale ops t scalar =
     (let result = for_upto (int (length (data t))) (\<lambda>i r.
            ta_set r i (f32 ops (fmul ops (ta_get ops (data t) i) scalar)))
            (zero_array ops (length (data t)))
      in \<lparr>data = result, shape = shape t, device = device t, dtype = dtype t\<rparr>)"

text \<open>\<^verbatim>\<open>ServerTensorUtils.zeros\<close>: the three typed arrays all start filled with zero.\<close>

definition server_zeros ::
  "'a js \<Rightarrow> int list \<Rightarrow> string option \<Rightarrow> string option \<Rightarrow> error + (int, 'a) tensor" where
  "server_zeros ops shp dt dev =
     (let dt' = (case dt of None \<Rightarrow> ''float32'' | Some v \<Rightarrow> v);
          dev' = (case dev of None \<Rightarrow> ''cpu'' | Some v \<Rightarrow> v)
      in ebind (new_array ops (product shp)) (\<lambda>d.
           Inr \<lparr>data = d, shape = shp, device = Some dev', dtype = Some dt'\<rparr>))"

section \<open>Streaming state\<close>

record 'a TransformerState =
  batchSize :: int
  sdevice :: string
  offsets :: "(int, 'a) tensor"
  execMask :: "bool list option"

text \<open>The constructor: \<^verbatim>\<open>offsets || TensorUtils.zeros([batchSize], device)\<close>.\<close>

definition TransformerState_new ::
  "'a js \<Rightarrow> int \<Rightarrow> string \<Rightarrow> (int, 'a) tensor option \<Rightarrow> error + 'a TransformerState" where
  "TransformerState_new ops bs dev offs =
     ebind (case offs of Some t \<Rightarrow> Inr t | None \<Rightarrow> zeros ops [bs] (Some dev)) (\<lambda>t.
       Inr \<lparr>batchSize = bs, sdevice = dev, offsets = t, execMask = None\<rparr>)"

text \<open>A read of a \<^verbatim>\<open>boolean[]\<close> used as a condition: outside the array it is \<^verbatim>\<open>undefined\<close>, which is false.\<close>

definition mask_at :: "bool list \<Rightarrow> int \<Rightarrow> bool" where
  "mask_at m i = (0 \<le> i \<and> i < int (length m) \<and> m ! nat i)"

text \<open>
  The loop of both \<^verbatim>\<open>reset\<close> methods:
  \<^verbatim>\<open>for (let i = 0; i < resetMask.length && i < this.offsets.data.length; i++)\<close>.
\<close>

definition reset_loop :: "'a js \<Rightarrow> bool list \<Rightarrow> 'a list \<Rightarrow> 'a list" where
  "reset_loop ops resetMask d =
     for_upto (min (int (length resetMask)) (int (length d)))
       (\<lambda>i d. if mask_at resetMask i then ta_set d i (num ops 0) else d) d"

text \<open>\<^verbatim>\<open>TransformerState.reset\<close>, whose mask is mandatory.\<close>

definition TransformerState_reset ::
  "'a js \<Rightarrow> 'a TransformerState \<Rightarrow> bool list \<Rightarrow> 'a TransformerState" where
  "TransformerState_reset ops s resetMask =
     s\<lparr>offsets := (offsets s)\<lparr>data := reset_loop ops resetMask (data (offsets s))\<rparr>\<rparr>"

text \<open>
  \<^verbatim>\<open>NodeStreamingState\<close> of the server has the same three fields \<open>batchSize\<close>, \<open>offsets\<close> and
  \<open>execMask\<close>; its offsets are an \<^verbatim>\<open>Int32Array\<close> made by \<^verbatim>\<open>ServerTensorUtils.zeros\<close>.
\<close>

definition NodeStreamingState_new ::
  "'a js \<Rightarrow> int \<Rightarrow> string option \<Rightarrow> error + 'a TransformerState" where
  "NodeStreamingState_new ops bs dev =
     (let dev' = (case dev of None \<Rightarrow> ''cpu'' | Some v \<Rightarrow> v)
      in ebind (server_zeros ops [bs] (Some ''int32'') (Some dev')) (\<lambda>t.
           Inr \<lparr>batchSize = bs, sdevice = dev', offsets = t, execMask = None\<rparr>))"

text \<open>\<^verbatim>\<open>NodeStreamingState.reset\<close>: without a mask, \<^verbatim>\<open>this.offsets.data.fill(0)\<close>.\<close>

definition NodeStreamingState_reset ::
  "'a js \<Rightarrow> 'a TransformerState \<Rightarrow> bool list option \<Rightarrow> 'a TransformerState" where
  "NodeStreamingState_reset ops s resetMask =
     (case resetMask of
        None \<Rightarrow> s\<lparr>offsets := (offsets s)\<lparr>data := map (\<lambda>_. num ops 0) (data (offsets s))\<rparr>\<rparr>
      | Some m \<Rightarrow> s\<lparr>offsets := (offsets s)\<lparr>data := reset_loop ops m (data (offsets s))\<rparr>\<rparr>)"

section \<open>Positional embedding\<close>

text \<open>\<^verbatim>\<open>PositionalEmbedding.createSinEmbedding\<close>\<close>

definition createSinEmbedding ::
  "'a js \<Rightarrow> (int, 'a) tensor \<Rightarrow> int \<Rightarrow> 'a \<Rightarrow> error + (int, 'a) tensor" where
  "createSinEmbedding ops positions dim' maxPeriod =
     (case shape positions of
        batchSize' # seqLen # _ \<Rightarrow>
          ebind (zeros ops [batchSize', seqLen, dim'] None) (\<lambda>embeddings.
            Inr (embeddings\<lparr>data :=
              for_upto batchSize' (\<lambda>b. for_upto seqLen (\<lambda>t.
                let pos = ta_get ops (data positions) (b * seqLen + t)
                in for_step2 dim' (\<lambda>d e.
                     let angle = fdiv ops pos (fpow ops maxPeriod (fdiv ops (num ops d) (num ops dim')));
                         idx = b * seqLen * dim' + t * dim';
                         e1 = ta_set e (idx + d) (f32 ops (fsin ops angle))
                     in if d + 1 < dim' then ta_set e1 (idx + d + 1) (f32 ops (fcos ops angle))
                        else e1)))
                (data embeddings)\<rparr>))
      | _ \<Rightarrow> Inl UndefinedDim)"

section \<open>Layers\<close>

record 'a linear =
  weight :: "(int, 'a) tensor"
  bias :: "(int, 'a) tensor option"
  inFeatures :: int
  outFeatures :: int

text \<open>
  The constructor of \<^verbatim>\<open>Linear\<close> draws its weights from \<^verbatim>\<open>Math.random\<close>.  The values drawn
  are an input of the model: \<open>rnd k\<close> is the \<open>k\<close>-th weight stored since the program
  started, and the constructor returns the number of weights drawn so far.
\<close>

definition Linear_new ::
  "'a js \<Rightarrow> (nat \<Rightarrow> 'a) \<Rightarrow> nat \<Rightarrow> int \<Rightarrow> int \<Rightarrow> bool \<Rightarrow> error + ('a linear \<times> nat)" where
  "Linear_new ops rnd k inF outF withBias =
     ebind (new_array ops (inF * outF)) (\<lambda>w0.
       let weightData = for_upto (int (length w0)) (\<lambda>i w. ta_set w i (rnd (k + nat i))) w0 in
       ebind (if withBias then map_sum id Some (zeros ops [outF] None) else Inr None) (\<lambda>bs.
         Inr (\<lparr>weight = \<lparr>data = weightData, shape = [outF, inF], device = Some ''cpu'',
                         dtype = Some ''float32''\<rparr>,
               bias = bs, inFeatures = inF, outFeatures = outF\<rparr>, k + length w0)))"

text \<open>\<^verbatim>\<open>Linear.forward\<close>; \<^verbatim>\<open>inputShape.slice(0, -1)\<close> is \<open>butlast\<close>.\<close>

definition Linear_forward :: "'a js \<Rightarrow> 'a linear \<Rightarrow> (int, 'a) tensor \<Rightarrow> error + (int, 'a) tensor" where
  "Linear_forward ops l x =
     (let inputShape = shape x;
          batchSize' = product (butlast inputShape)
      in ebind (zeros ops (butlast inputShape @ [outFeatures l]) None) (\<lambda>result.
           Inr (result\<lparr>data :=
             for_upto batchSize' (\<lambda>b. for_upto (outFeatures l) (\<lambda>out r.
               let sum0 = for_upto (inFeatures l) (\<lambda>inp sum.
                     let xIdx = b * inFeatures l + inp;
                         wIdx = out * inFeatures l + inp
                     in fadd ops sum (fmul ops (ta_get ops (data x) xIdx)
                                               (ta_get ops (data (weight l)) wIdx))) (num ops 0);
                   sum1 = (case bias l of None \<Rightarrow> sum0
                           | Some bt \<Rightarrow> fadd ops sum0 (ta_get ops (data bt) out))
               in ta_set r (b * outFeatures l + out) (f32 ops sum1)))
             (data result)\<rparr>)))"

text \<open>\<^verbatim>\<open>Identity.forward\<close> copies the tensor.\<close>

definition Identity_forward :: "(int, 'a) tensor \<Rightarrow> (int, 'a) tensor" where
  "Identity_forward x = \<lparr>data = data x, shape = shape x, device = device x, dtype = dtype x\<rparr>"

datatype 'a layer = Identity | Linear "'a linear"

fun layer_forward :: "'a js \<Rightarrow> 'a layer \<Rightarrow> (int, 'a) tensor \<Rightarrow> error + (int, 'a) tensor" where
  "layer_forward ops Identity x = Inr (Identity_forward x)"
| "layer_forward ops (Linear l) x = Linear_forward ops l x"

section \<open>Streaming transformer\<close>

text \<open>
  The fields \<^verbatim>\<open>numHeads\<close>, \<^verbatim>\<open>dimFeedforward\<close>, \<^verbatim>\<open>causal\<close>, \<^verbatim>\<open>context\<close> and \<^verbatim>\<open>checkpointing\<close>
  are stored by the constructor and read by no method; they are left out.
\<close>

record 'a StreamingTransformer_options =
  o_dModel :: int
  o_numLayers :: "int option"
  o_positionalEmbedding :: "string option"
  o_maxPeriod :: "'a option"
  o_positionalScale :: "'a option"

record 'a StreamingTransformer =
  dModel :: int
  numLayers :: "int option"
  positionalEmbedding :: string
  maxPeriod :: 'a
  positionalScale :: 'a
  layers :: "'a layer list"
  streamingState :: "'a TransformerState option"

text \<open>\<^verbatim>\<open>options.maxPeriod || 10000\<close>\<close>

definition num_or_default :: "'a js \<Rightarrow> 'a option \<Rightarrow> 'a \<Rightarrow> 'a" where
  "num_or_default ops v d = (case v of None \<Rightarrow> d | Some x \<Rightarrow> if falsy ops x then d else x)"

definition validEmbeddings :: "string list" where
  "validEmbeddings = [''sin'', ''rope'', ''sin_rope'', ''none'']"

definition StreamingTransformer_new ::
  "'a js \<Rightarrow> 'a StreamingTransformer_options \<Rightarrow> error + 'a StreamingTransformer" where
  "StreamingTransformer_new ops options =
     (let pe = or_default (o_positionalEmbedding options) ''sin'' in
      if pe \<notin> set validEmbeddings then Inl InvalidPositionalEmbedding
      else Inr \<lparr>dModel = o_dModel options,
                numLayers = o_numLayers options,
                positionalEmbedding = pe,
                maxPeriod = num_or_default ops (o_maxPeriod options) (num ops 10000),
                positionalScale = num_or_default ops (o_positionalScale options) (num ops 1),
                layers = for_upto (case o_numLayers options of None \<Rightarrow> 0 | Some n \<Rightarrow> n)
                           (\<lambda>i ls. ls @ [Identity]) [],
                streamingState = None\<rparr>)"

definition initStreamingState :: "'a js \<Rightarrow> int \<Rightarrow> error + 'a TransformerState" where
  "initStreamingState ops bs = TransformerState_new ops bs ''cpu'' None"

text \<open>Lines 352 to 359 of \<^verbatim>\<open>forward\<close>: the offsets the positions are built from.\<close>

definition forward_offsets ::
  "'a js \<Rightarrow> 'a TransformerState option \<Rightarrow> string option \<Rightarrow> error + (int, 'a) tensor" where
  "forward_offsets ops state dev =
     (case state of None \<Rightarrow> zeros ops [1] dev | Some s \<Rightarrow> Inr (offsets s))"

text \<open>Lines 379 to 386: the tensor \<^verbatim>\<open>expandedPositions\<close>.\<close>

definition expandedPositions ::
  "'a js \<Rightarrow> (int, 'a) tensor \<Rightarrow> int \<Rightarrow> int \<Rightarrow> string option \<Rightarrow> error + (int, 'a) tensor" where
  "expandedPositions ops offs B T dev =
     ebind (zeros ops [B, T] dev) (\<lambda>e.
       Inr (e\<lparr>data :=
         for_upto B (\<lambda>b. for_upto T (\<lambda>t d.
           let offsetIdx = min b (int (length (data offs)) - 1)
           in ta_set d (b * T + t) (f32 ops (fadd ops (num ops t) (ta_get ops (data offs) offsetIdx)))))
           (data e)\<rparr>))"

text \<open>Lines 403 to 411: the update of the offsets.\<close>

definition advance_offsets :: "'a js \<Rightarrow> 'a TransformerState \<Rightarrow> int \<Rightarrow> 'a TransformerState" where
  "advance_offsets ops state T =
     state\<lparr>offsets := (offsets state)\<lparr>data :=
       for_upto (int (length (data (offsets state)))) (\<lambda>i d.
         if (case execMask state of None \<Rightarrow> True | Some m \<Rightarrow> mask_at m i)
         then ta_set d i (f32 ops (fadd ops (ta_get ops d i) (num ops T)))
         else d) (data (offsets state))\<rparr>\<rparr>"

fun forward_layers :: "'a js \<Rightarrow> 'a layer list \<Rightarrow> (int, 'a) tensor \<Rightarrow> error + (int, 'a) tensor" where
  "forward_layers ops [] x = Inr x"
| "forward_layers ops (l # ls) x = ebind (layer_forward ops l x) (forward_layers ops ls)"

text \<open>
  \<^verbatim>\<open>StreamingTransformer.forward\<close>.  It returns the output together with the transformer,
  whose streaming state it has updated in place.  The loop of lines 369 to 377 writes into
  the buffer of \<^verbatim>\<open>positions\<close>, which is not read afterwards; the model keeps the calls of
  \<^verbatim>\<open>arange\<close> and \<^verbatim>\<open>view\<close>, which can fail, and leaves the loop out.
\<close>

definition StreamingTransformer_forward ::
  "'a js \<Rightarrow> 'a StreamingTransformer \<Rightarrow> (int, 'a) tensor
   \<Rightarrow> error + ((int, 'a) tensor \<times> 'a StreamingTransformer)" where
  "StreamingTransformer_forward ops this x =
     (case shape x of
        B # T # C # _ \<Rightarrow>
          let dtypeInput = dtype x;
              state = streamingState this
          in
          ebind (forward_offsets ops state (device x)) (\<lambda>offs.
          ebind (if positionalEmbedding this = ''sin'' \<or> positionalEmbedding this = ''sin_rope''
                 then
                   ebind (arange ops T (device x)) (\<lambda>positions.
                   ebind (view positions [1, T, 1]) (\<lambda>positionsReshaped.
                   ebind (expandedPositions ops offs B T (device x)) (\<lambda>expanded.
                   ebind (createSinEmbedding ops expanded C (maxPeriod this)) (\<lambda>posEmb.
                     let scaledPosEmb = scale ops posEmb (positionalScale this)
                     in add_t ops x scaledPosEmb))))
                 else Inr x) (\<lambda>x1.
          ebind (forward_layers ops (layers this) x1) (\<lambda>x2.
            let state' = map_option (\<lambda>s. advance_offsets ops s T) state
            in Inr (\<lparr>data = data x2, shape = shape x2, device = device x2, dtype = dtypeInput\<rparr>,
                    this\<lparr>streamingState := state'\<rparr>))))
      | _ \<Rightarrow> Inl UndefinedDim)"

section \<open>Projected transformer\<close>

text \<open>
  \<^verbatim>\<open>transformerOptions\<close> has the type \<^verbatim>\<open>any\<close> and is spread over \<^verbatim>\<open>{ dModel }\<close>: each of
  its fields is optional, \<^verbatim>\<open>dModel\<close> included.
\<close>

record 'a transformerOptions =
  t_dModel :: "int option"
  t_numLayers :: "int option"
  t_positionalEmbedding :: "string option"
  t_maxPeriod :: "'a option"
  t_positionalScale :: "'a option"

record 'a ProjectedTransformer_options =
  p_inputDimension :: int
  p_outputDimensions :: "int list"
  p_dModel :: int
  p_convLayout :: "bool option"
  p_transformerOptions :: "'a transformerOptions option"

record 'a ProjectedTransformer =
  transformer :: "'a StreamingTransformer"
  inputProj :: "'a linear option"
  outputProjs :: "'a layer list"
  convLayout :: bool

text \<open>The loop over \<^verbatim>\<open>outputDimensions\<close> of the constructor.\<close>

fun make_outputProjs ::
  "'a js \<Rightarrow> (nat \<Rightarrow> 'a) \<Rightarrow> nat \<Rightarrow> int \<Rightarrow> int list \<Rightarrow> error + ('a layer list \<times> nat)" where
  "make_outputProjs ops rnd k dm [] = Inr ([], k)"
| "make_outputProjs ops rnd k dm (outputDimension # ds) =
     (if dm = outputDimension
      then ebind (make_outputProjs ops rnd k dm ds) (\<lambda>(ps, k'). Inr (Identity # ps, k'))
      else ebind (Linear_new ops rnd k dm outputDimension False) (\<lambda>(l, k').
           ebind (make_outputProjs ops rnd k' dm ds) (\<lambda>(ps, k''). Inr (Linear l # ps, k''))))"

definition ProjectedTransformer_new ::
  "'a js \<Rightarrow> (nat \<Rightarrow> 'a) \<Rightarrow> nat \<Rightarrow> 'a ProjectedTransformer_options
   \<Rightarrow> error + ('a ProjectedTransformer \<times> nat)" where
  "ProjectedTransformer_new ops rnd k options =
     (let dm = p_dModel options;
          cl = (case p_convLayout options of None \<Rightarrow> False | Some c \<Rightarrow> c);
          topts = (case p_transformerOptions options of
                     None \<Rightarrow> \<lparr>t_dModel = None, t_numLayers = None, t_positionalEmbedding = None,
                               t_maxPeriod = None, t_positionalScale = None\<rparr>
                   | Some t \<Rightarrow> t)
      in
      ebind (StreamingTransformer_new ops
               \<lparr>o_dModel = (case t_dModel topts of None \<Rightarrow> dm | Some d \<Rightarrow> d),
                o_numLayers = t_numLayers topts,
                o_positionalEmbedding = t_positionalEmbedding topts,
                o_maxPeriod = t_maxPeriod topts,
                o_positionalScale = t_positionalScale topts\<rparr>) (\<lambda>tr.
      ebind (if dm \<noteq> p_inputDimension options
             then ebind (Linear_new ops rnd k (p_inputDimension options) dm False)
                    (\<lambda>(l, k'). Inr (Some l, k'))
             else Inr (None, k)) (\<lambda>(ip, k1).
      ebind (make_outputProjs ops rnd k1 dm (p_outputDimensions options)) (\<lambda>(ps, k2).
        Inr (\<lparr>transformer = tr, inputProj = ip, outputProjs = ps, convLayout = cl\<rparr>, k2)))))"

text \<open>The loop over \<^verbatim>\<open>outputProjs\<close> of \<^verbatim>\<open>forward\<close>.\<close>

fun project_outputs ::
  "'a js \<Rightarrow> bool \<Rightarrow> 'a layer list \<Rightarrow> (int, 'a) tensor \<Rightarrow> error + (int, 'a) tensor list" where
  "project_outputs ops cl [] z = Inr []"
| "project_outputs ops cl (outputProj # ps) z =
     ebind (layer_forward ops outputProj z) (\<lambda>y.
     ebind (if cl then transpose_t ops y 1 2 else Inr y) (\<lambda>y'.
     ebind (project_outputs ops cl ps z) (\<lambda>ys. Inr (y' # ys))))"

definition ProjectedTransformer_forward ::
  "'a js \<Rightarrow> 'a ProjectedTransformer \<Rightarrow> (int, 'a) tensor
   \<Rightarrow> error + ((int, 'a) tensor list \<times> 'a ProjectedTransformer)" where
  "ProjectedTransformer_forward ops this x =
     ebind (if convLayout this then transpose_t ops x 1 2 else Inr x) (\<lambda>x1.
     ebind (case inputProj this of None \<Rightarrow> Inr x1 | Some l \<Rightarrow> Linear_forward ops l x1) (\<lambda>x2.
     ebind (StreamingTransformer_forward ops (transformer this) x2) (\<lambda>(z, tr').
     ebind (project_outputs ops (convLayout this) (outputProjs this) z) (\<lambda>ys.
       Inr (ys, this\<lparr>transformer := tr'\<rparr>)))))"

section \<open>Well-formed tensors\<close>

text \<open>
  The invariant of a tensor: no dimension is negative and the buffer holds as many
  elements as the shape announces.
\<close>

definition wf :: "(int, 'a) tensor \<Rightarrow> bool" where
  "wf t = (list_all (\<lambda>d. 0 \<le> d) (shape t) \<and> int (length (data t)) = product (shape t))"

section \<open>Sequences of writes\<close>

text \<open>
  The loops of the source fill a fresh array by writes whose values do not depend on the
  array being filled.  \<open>writes\<close> performs a list of such writes in order; it is the device
  by which the nested loops are analysed.
\<close>

definition writes :: "(int \<times> 'a) list \<Rightarrow> 'a list \<Rightarrow> 'a list" where
  "writes ws xs = fold (\<lambda>(i, v) xs. ta_set xs i v) ws xs"

section \<open>Instances of the arithmetic\<close>

text \<open>
  The statements below hold for every arithmetic, those on offsets and positions for
  every arithmetic that is exact on small integers.  To run the model on concrete inputs,
  \<open>ideal\<close> is real arithmetic without rounding.  \<open>None\<close> stands for NaN, and also for the
  results that this instance does not compute: the infinities and the powers of a base
  that is not positive.
\<close>

definition ideal :: "real option js" where
  "ideal = \<lparr>nan = None,
            num = (\<lambda>i. Some (of_int i)),
            f32 = (\<lambda>x. x),
            fadd = (\<lambda>x y. case (x, y) of (Some a, Some b) \<Rightarrow> Some (a + b) | _ \<Rightarrow> None),
            fmul = (\<lambda>x y. case (x, y) of (Some a, Some b) \<Rightarrow> Some (a * b) | _ \<Rightarrow> None),
            fdiv = (\<lambda>x y. case (x, y) of
                      (Some a, Some b) \<Rightarrow> if b = 0 then None else Some (a / b) | _ \<Rightarrow> None),
            fpow = (\<lambda>x y. case y of
                      None \<Rightarrow> None
                    | Some b \<Rightarrow> if b = 0 then Some 1
                               else (case x of
                                       None \<Rightarrow> None
                                     | Some a \<Rightarrow> if 0 < a then Some (a powr b) else None)),
            fsin = map_option sin,
            fcos = map_option cos,
            falsy = (\<lambda>x. x = None \<or> x = Some 0)\<rparr>"

text \<open>
  \<open>ieee\<close> is the arithmetic of the engine on finite numbers: every operation returns its
  exact result rounded to a double, and the store into a \<^verbatim>\<open>Float32Array\<close> rounds to a
  single.  \<open>None\<close> stands for NaN and for the infinities, with which this instance does not
  compute further; sine, cosine and power are taken as correctly rounded.
\<close>

definition ieee :: "real option js" where
  "ieee = \<lparr>nan = None,
           num = (\<lambda>i. binary64 (of_int i)),
           f32 = (\<lambda>x. case x of None \<Rightarrow> None | Some a \<Rightarrow> binary32 a),
           fadd = (\<lambda>x y. case (x, y) of (Some a, Some b) \<Rightarrow> binary64 (a + b) | _ \<Rightarrow> None),
           fmul = (\<lambda>x y. case (x, y) of (Some a, Some b) \<Rightarrow> binary64 (a * b) | _ \<Rightarrow> None),
           fdiv = (\<lambda>x y. case (x, y) of
                     (Some a, Some b) \<Rightarrow> if b = 0 then None else binary64 (a / b) | _ \<Rightarrow> None),
           fpow = (\<lambda>x y. case y of
                     None \<Rightarrow> None
                   | Some b \<Rightarrow> if b = 0 then Some 1
                              else (case x of
                                      None \<Rightarrow> None
                                    | Some a \<Rightarrow> if 0 < a then binary64 (a powr b) else None)),
           fsin = (\<lambda>x. case x of None \<Rightarrow> None | Some a \<Rightarrow> binary64 (sin a)),
           fcos = (\<lambda>x. case x of None \<Rightarrow> None | Some a \<Rightarrow> binary64 (cos a)),
           falsy = (\<lambda>x. x = None \<or> x = Some 0)\<rparr>"

text \<open>
  The offsets of a streaming state and the positions built from them are integers kept
  in a \<^verbatim>\<open>Float32Array\<close>.  What the statements on them need of the arithmetic is that it is
  exact on the integers that a single holds exactly: the stored sum of two integers is
  their sum as long as both and the sum have a magnitude of at most \<open>2 ^ 24\<close>, and
  different integers of that range are different numbers.
\<close>

definition integer_sums_exact :: "'a js \<Rightarrow> bool" where
  "integer_sums_exact ops =
     ((\<forall>a b. \<bar>a\<bar> \<le> 2 ^ 24 \<and> \<bar>b\<bar> \<le> 2 ^ 24 \<and> \<bar>a + b\<bar> \<le> 2 ^ 24
          \<longrightarrow> f32 ops (fadd ops (num ops a) (num ops b)) = num ops (a + b))
      \<and> (\<forall>a b. \<bar>a\<bar> \<le> 2 ^ 24 \<and> \<bar>b\<bar> \<le> 2 ^ 24 \<and> num ops a = num ops b \<longrightarrow> a = b))"

section \<open>Rounding\<close>

lemma round_even_int [simp]: "round_even (of_int n) = n"
  by (simp add: round_even_def)

lemma round_even_eval:
  assumes "of_int f \<le> r" "r < of_int f + 1"
  shows "round_even r = (if r - of_int f < 1 / 2 then f
                         else if 1 / 2 < r - of_int f then f + 1
                         else if even f then f else f + 1)"
proof -
  have "\<lfloor>r\<rfloor> = f" using assms by linarith
  then show ?thesis by (simp add: round_even_def Let_def)
qed

lemma powi_powr: "(2 :: real) powi e = 2 powr of_int e"
  by (simp add: power_int_def powr_real_of_int power_one_over inverse_eq_divide)

lemma floor_log2_eq:
  assumes "2 powr of_int k \<le> \<bar>x\<bar>" "\<bar>x\<bar> < 2 powr of_int (k + 1)"
  shows "\<lfloor>log 2 \<bar>x\<bar>\<rfloor> = k"
proof -
  have "0 < \<bar>x\<bar>" using assms(1) by (smt (verit) powr_gt_zero)
  then show ?thesis using assms by (simp add: floor_log_eq_powr_iff)
qed

text \<open>
  The binary exponent is the integer part of the logarithm, and the rounding can be written
  with it.
\<close>

lemma binary_exponent_eq:
  assumes "x \<noteq> 0"
  shows "binary_exponent x = \<lfloor>log 2 \<bar>x\<bar>\<rfloor>"
proof (cases "1 \<le> \<bar>x\<bar>")
  case True
  define n where "n = \<lfloor>\<bar>x\<bar>\<rfloor>"
  define b where "b = bitlen n"
  have n: "1 \<le> n" "of_int n \<le> \<bar>x\<bar>" "\<bar>x\<bar> < of_int n + 1"
    using True unfolding n_def by linarith+
  have bb: "2 ^ nat (b - 1) \<le> n" "n < 2 ^ nat b"
    using bitlen_bounds[of n] n(1) unfolding b_def by simp_all
  have b1: "1 \<le> b" using n(1) unfolding b_def by (simp add: bitlen_alt_def)
  have "(2 :: real) powr of_int (b - 1) = 2 ^ nat (b - 1)"
    using b1 powr_real_of_int[of 2 "b - 1"] by simp
  also have "\<dots> = of_int (2 ^ nat (b - 1))" by simp
  also have "\<dots> \<le> of_int n" using bb(1) by (simp only: of_int_le_iff)
  finally have lo: "2 powr of_int (b - 1) \<le> \<bar>x\<bar>" using n(2) by linarith
  have "n + 1 \<le> 2 ^ nat b" using bb(2) by simp
  then have "real_of_int (n + 1) \<le> of_int (2 ^ nat b)" by (simp only: of_int_le_iff)
  also have "\<dots> = 2 powr of_int b" using b1 powr_real_of_int[of 2 b] by simp
  finally have hi: "\<bar>x\<bar> < 2 powr of_int (b - 1 + 1)" using n(3) by simp
  have "\<lfloor>log 2 \<bar>x\<bar>\<rfloor> = b - 1" by (rule floor_log2_eq[OF lo hi])
  then show ?thesis using True by (simp add: binary_exponent_def b_def n_def)
next
  case False
  define y where "y = 1 / \<bar>x\<bar>"
  define m where "m = \<lceil>y\<rceil>"
  define j where "j = bitlen (m - 1)"
  have x: "0 < \<bar>x\<bar>" "\<bar>x\<bar> < 1" using assms False by simp_all
  have y1: "1 < y" using x unfolding y_def by simp
  have m: "y \<le> of_int m" "of_int m - 1 < y" unfolding m_def by linarith+
  have m2: "2 \<le> m" using y1 m(1) by linarith
  have jb: "2 ^ nat (j - 1) \<le> m - 1" "m - 1 < 2 ^ nat j"
    using bitlen_bounds[of "m - 1"] m2 unfolding j_def by simp_all
  have j1: "1 \<le> j" using m2 unfolding j_def by (simp add: bitlen_alt_def)
  have "m \<le> 2 ^ nat j" using jb(2) by simp
  then have "real_of_int m \<le> of_int (2 ^ nat j)" by (simp only: of_int_le_iff)
  also have "\<dots> = 2 ^ nat j" by simp
  finally have yhi: "y \<le> 2 ^ nat j" using m(1) by linarith
  have "(2 :: real) ^ nat (j - 1) = of_int (2 ^ nat (j - 1))" by simp
  also have "\<dots> \<le> of_int (m - 1)" using jb(1) by (simp only: of_int_le_iff)
  also have "\<dots> = of_int m - 1" by simp
  finally have ylo: "2 ^ nat (j - 1) < y" using m(2) by linarith
  have xy: "\<bar>x\<bar> = 1 / y" using x unfolding y_def by simp
  have p1: "(2 :: real) powr of_int (- j) = 1 / 2 ^ nat j"
    using j1 powr_real_of_int[of 2 "- j"] by (simp add: inverse_eq_divide)
  have p2: "(2 :: real) powr of_int (- j + 1) = 1 / 2 ^ nat (j - 1)"
  proof (cases "j = 1")
    case True
    then show ?thesis by simp
  next
    case False
    then have "- j + 1 < 0" "nat (- (- j + 1)) = nat (j - 1)" using j1 by simp_all
    then show ?thesis using powr_real_of_int[of 2 "- j + 1"] by (simp add: inverse_eq_divide)
  qed
  have lo: "2 powr of_int (- j) \<le> \<bar>x\<bar>"
    unfolding p1 xy using yhi y1 by (simp add: frac_le)
  have hi: "\<bar>x\<bar> < 2 powr of_int (- j + 1)"
    unfolding p2 xy using ylo by (simp add: frac_less2)
  have "\<lfloor>log 2 \<bar>x\<bar>\<rfloor> = - j" by (rule floor_log2_eq[OF lo hi])
  then show ?thesis using False by (simp add: binary_exponent_def j_def m_def y_def)
qed

lemma fround_alt:
  "fround p emin x =
     (if x = 0 then 0
      else let e = max (\<lfloor>log 2 \<bar>x\<bar>\<rfloor> - int p + 1) emin
           in of_int (round_even (x / 2 powr of_int e)) * 2 powr of_int e)"
  by (simp add: fround_def binary_exponent_eq powi_powr)

text \<open>The rounding of a number whose binary exponent is known.\<close>

lemma fround_eval:
  assumes "2 powr of_int k \<le> \<bar>x\<bar>" "\<bar>x\<bar> < 2 powr of_int (k + 1)"
  shows "fround p emin x =
         of_int (round_even (x / 2 powr of_int (max (k - int p + 1) emin)))
           * 2 powr of_int (max (k - int p + 1) emin)"
proof -
  have "x \<noteq> 0" using assms(1) by (smt (verit) powr_gt_zero)
  then show ?thesis using floor_log2_eq[OF assms] by (simp add: fround_alt Let_def)
qed

text \<open>An integer of at most \<open>p\<close> bits, and the power \<open>2 ^ p\<close>, are not changed by the rounding.\<close>

lemma fround_int:
  assumes "\<bar>n\<bar> \<le> 2 ^ p" "emin \<le> 0" "0 < p"
  shows "fround p emin (of_int n) = of_int n"
proof (cases "n = 0")
  case True
  then show ?thesis by (simp add: fround_def)
next
  case False
  define k where "k = \<lfloor>log 2 \<bar>real_of_int n\<bar>\<rfloor>"
  define e where "e = max (k - int p + 1) emin"
  have pos: "0 < \<bar>real_of_int n\<bar>" using False by simp
  have k: "2 powr of_int k \<le> \<bar>real_of_int n\<bar>" "\<bar>real_of_int n\<bar> < 2 powr of_int (k + 1)"
    using floor_log_eq_powr_iff[of "\<bar>real_of_int n\<bar>" 2 k] pos k_def by simp_all
  have le: "\<bar>real_of_int n\<bar> \<le> 2 powr of_int (int p)"
  proof -
    have "\<bar>real_of_int n\<bar> = real_of_int \<bar>n\<bar>" by simp
    also have "\<dots> \<le> real_of_int (2 ^ p)" using assms(1) by (simp only: of_int_le_iff)
    also have "\<dots> = 2 powr of_int (int p)" by (simp add: powr_realpow)
    finally show ?thesis .
  qed
  have kp: "k \<le> int p"
  proof (rule ccontr)
    assume "\<not> k \<le> int p"
    then have "int p + 1 \<le> k" by simp
    then have "(2 :: real) powr of_int (int p + 1) \<le> 2 powr of_int k" by simp
    moreover have "(2 :: real) powr of_int (int p) < 2 powr of_int (int p + 1)" by simp
    ultimately show False using k(1) le by linarith
  qed
  have e1: "e \<le> 1" using kp assms(2) by (simp add: e_def)
  have "\<exists>m. real_of_int n / 2 powr of_int e = of_int m"
  proof (cases "e \<le> 0")
    case True
    have "real_of_int n / 2 powr of_int e = of_int n * 2 powr of_int (- e)"
      by (simp add: powr_minus field_simps)
    also have "2 powr real_of_int (- e) = (2 :: real) ^ nat (- e)"
      using True powr_real_of_int[of 2 "- e"] by simp
    finally have "real_of_int n / 2 powr of_int e = of_int (n * 2 ^ nat (- e))" by simp
    then show ?thesis by blast
  next
    case False
    then have e: "e = 1" using e1 by simp
    then have "k = int p" using kp assms(2) by (simp add: e_def max_def split: if_splits)
    then have "2 powr of_int (int p) \<le> \<bar>real_of_int n\<bar>" using k(1) by simp
    then have "\<bar>real_of_int n\<bar> = 2 ^ p" using le by (simp add: powr_realpow)
    then have "\<bar>n\<bar> = 2 ^ p"
      by (metis of_int_abs of_int_eq_iff of_int_numeral of_int_power)
    then have "n = 2 ^ p \<or> n = - (2 ^ p)" by linarith
    moreover obtain q where "p = Suc q" using assms(3) by (cases p) auto
    ultimately have "real_of_int n / 2 powr of_int e = of_int (2 ^ q)
                     \<or> real_of_int n / 2 powr of_int e = of_int (- (2 ^ q))"
      using e by auto
    then show ?thesis by blast
  qed
  then obtain m where m: "real_of_int n / 2 powr of_int e = of_int m" by blast
  have "fround p emin (of_int n)
          = of_int (round_even (of_int n / 2 powr of_int e)) * 2 powr of_int e"
    using \<open>n \<noteq> 0\<close> by (simp add: fround_alt Let_def e_def k_def)
  also have "\<dots> = of_int m * 2 powr of_int e" by (simp only: m round_even_int)
  also have "\<dots> = of_int n" using m by (simp add: field_simps)
  finally show ?thesis .
qed

lemma binary64_int: "\<bar>n\<bar> \<le> 2 ^ 53 \<Longrightarrow> binary64 (of_int n) = Some (of_int n)"
proof -
  assume a: "\<bar>n\<bar> \<le> 2 ^ 53"
  have "\<bar>real_of_int n\<bar> \<le> 2 ^ 53"
    using a by (metis of_int_abs of_int_le_iff of_int_numeral of_int_power)
  also have "\<dots> < (2 :: real) ^ 1024" by simp
  finally show ?thesis
    using fround_int[of n 53 "- 1074"] a by (simp add: binary64_def rounded_def)
qed

lemma binary32_int: "\<bar>n\<bar> \<le> 2 ^ 24 \<Longrightarrow> binary32 (of_int n) = Some (of_int n)"
proof -
  assume a: "\<bar>n\<bar> \<le> 2 ^ 24"
  have "\<bar>real_of_int n\<bar> \<le> 2 ^ 24"
    using a by (metis of_int_abs of_int_le_iff of_int_numeral of_int_power)
  also have "\<dots> < (2 :: real) ^ 128" by simp
  finally show ?thesis
    using fround_int[of n 24 "- 149"] a by (simp add: binary32_def rounded_def)
qed

lemma dbl_int: "\<bar>n\<bar> \<le> 2 ^ 53 \<Longrightarrow> dbl (of_int n) = Finite (of_int n)"
  by (simp add: dbl_def binary64_int)

lemma dmul_int:
  "\<bar>a * b\<bar> \<le> 2 ^ 53 \<Longrightarrow> dmul (Finite (of_int a)) (Finite (of_int b)) = Finite (of_int (a * b))"
  using dbl_int[of "a * b"] by simp

lemma ddiv_int:
  assumes "b dvd a" "b \<noteq> 0" "\<bar>a\<bar> \<le> 2 ^ 53"
  shows "ddiv (Finite (of_int a)) (Finite (of_int b)) = Finite (of_int (a div b))"
proof -
  obtain c where c: "a = b * c" using assms(1) by (auto simp: dvd_def)
  have "1 \<le> \<bar>b\<bar>" using assms(2) by simp
  then have "1 * \<bar>c\<bar> \<le> \<bar>b\<bar> * \<bar>c\<bar>" by (intro mult_right_mono) simp_all
  then have "\<bar>a div b\<bar> \<le> \<bar>a\<bar>" using c assms(2) by (simp add: abs_mult)
  then have "\<bar>a div b\<bar> \<le> 2 ^ 53" using assms(3) by linarith
  moreover have "real_of_int a / real_of_int b = real_of_int (a div b)"
    using assms(1) by (simp add: real_of_int_div)
  ultimately show ?thesis using assms(2) by (simp add: dbl_int)
qed

text \<open>
  The product of positive integers is exact as long as it does not exceed \<open>2 ^ 53\<close>: so are
  the products of its prefixes.
\<close>

lemma fold_dmul_exact:
  assumes "\<forall>d \<in> set ds. 1 \<le> d" "0 \<le> k" "k * prod_list ds \<le> 2 ^ 53"
  shows "fold (\<lambda>dim acc. dmul acc dim) (numbers ds) (Finite (of_int k))
         = Finite (of_int (k * prod_list ds))"
  using assms
proof (induction ds arbitrary: k)
  case Nil
  then show ?case by (simp add: numbers_def)
next
  case (Cons d ds)
  have d: "1 \<le> d" and ds: "\<forall>d \<in> set ds. 1 \<le> d" using Cons.prems(1) by simp_all
  have p: "1 \<le> prod_list ds" using ds
  proof (induction ds)
    case Nil
    show ?case by simp
  next
    case (Cons e es)
    then have "1 \<le> e" "1 \<le> prod_list es" by simp_all
    then have "1 * 1 \<le> e * prod_list es" by (intro mult_mono) simp_all
    then show ?case by simp
  qed
  have kd: "0 \<le> k * d" using Cons.prems(2) d by simp
  have "k * d * 1 \<le> k * d * prod_list ds" using kd p by (rule mult_left_mono[rotated])
  then have b: "k * d \<le> 2 ^ 53" using Cons.prems(3) by (simp add: mult.assoc)
  have m: "dmul (Finite (of_int k)) (Finite (of_int d)) = Finite (of_int (k * d))"
    using kd b by (intro dmul_int) simp
  have "fold (\<lambda>dim acc. dmul acc dim) (numbers ds) (Finite (of_int (k * d)))
        = Finite (of_int (k * d * prod_list ds))"
    using Cons.prems(3) by (intro Cons.IH[OF ds kd]) (simp add: mult.assoc)
  then show ?case using m by (simp add: numbers_def mult.assoc)
qed

lemma dprod_exact:
  assumes "\<forall>d \<in> set ds. 1 \<le> d" "prod_list ds \<le> 2 ^ 53"
  shows "dprod (numbers ds) = Finite (of_int (prod_list ds))"
  using fold_dmul_exact[OF assms(1), of 1] assms(2) by (simp add: dprod_def)

section \<open>The arithmetic of the engine on integers\<close>

lemma binary64_numeral:
  "(numeral w :: int) \<le> 2 ^ 53 \<Longrightarrow> binary64 (numeral w) = Some (numeral w)"
  using binary64_int[of "numeral w"] by simp

lemma binary64_one: "binary64 1 = Some 1"
  using binary64_int[of 1] by simp

lemma binary64_zero: "binary64 0 = Some 0"
  using binary64_int[of 0] by simp

lemma binary32_numeral:
  "(numeral w :: int) \<le> 2 ^ 24 \<Longrightarrow> binary32 (numeral w) = Some (numeral w)"
  using binary32_int[of "numeral w"] by simp

lemma binary32_one: "binary32 1 = Some 1"
  using binary32_int[of 1] by simp

lemma binary32_zero: "binary32 0 = Some 0"
  using binary32_int[of 0] by simp

lemmas binary_simps =
  binary64_numeral binary64_one binary64_zero binary32_numeral binary32_one binary32_zero

text \<open>
  From \<open>2 ^ 24\<close> to \<open>2 ^ 25\<close> a single holds the even integers only: \<open>2 ^ 24 + 1\<close> lies
  halfway between two of them and is rounded to the one whose last bit is zero.
\<close>

lemma binary32_16777217: "binary32 16777217 = Some 16777216"
  using fround_eval[of 24 16777217 24 "- 149"] round_even_eval[of 8388608 "16777217 / 2"]
  by (simp add: binary32_def rounded_def)

lemma binary32_16777218: "binary32 16777218 = Some 16777218"
  using fround_eval[of 24 16777218 24 "- 149"] round_even_eval[of 8388609 "16777218 / 2"]
  by (simp add: binary32_def rounded_def)

lemma num_ieee: "\<bar>n\<bar> \<le> 2 ^ 53 \<Longrightarrow> num ieee n = Some (of_int n)"
  by (simp add: ieee_def binary64_int)

lemma ieee_integer_sums_exact: "integer_sums_exact ieee"
  unfolding integer_sums_exact_def
proof (intro conjI allI impI)
  fix a b :: int
  assume h: "\<bar>a\<bar> \<le> 2 ^ 24 \<and> \<bar>b\<bar> \<le> 2 ^ 24 \<and> \<bar>a + b\<bar> \<le> 2 ^ 24"
  have a: "num ieee a = Some (of_int a)" and b: "num ieee b = Some (of_int b)"
    and c: "num ieee (a + b) = Some (of_int (a + b))"
    using h by (simp_all add: num_ieee)
  have "fadd ieee (Some (of_int a)) (Some (of_int b)) = binary64 (of_int (a + b))"
    by (simp add: ieee_def)
  also have "\<dots> = Some (of_int (a + b))" using h by (intro binary64_int) simp
  finally have "f32 ieee (fadd ieee (num ieee a) (num ieee b)) = binary32 (of_int (a + b))"
    unfolding a b by (simp add: ieee_def)
  also have "\<dots> = Some (of_int (a + b))" using h by (intro binary32_int) simp
  finally show "f32 ieee (fadd ieee (num ieee a) (num ieee b)) = num ieee (a + b)"
    unfolding c .
next
  fix a b :: int
  assume h: "\<bar>a\<bar> \<le> 2 ^ 24 \<and> \<bar>b\<bar> \<le> 2 ^ 24 \<and> num ieee a = num ieee b"
  have a: "num ieee a = Some (of_int a)" using h by (intro num_ieee) simp
  have b: "num ieee b = Some (of_int b)" using h by (intro num_ieee) simp
  from h have "num ieee a = num ieee b" by simp
  then have "Some (real_of_int a) = Some (real_of_int b)" unfolding a b .
  then show "a = b" by simp
qed

lemma stored_sum:
  assumes "integer_sums_exact ops" "0 \<le> a" "0 \<le> b" "a + b \<le> 2 ^ 24"
  shows "f32 ops (fadd ops (num ops a) (num ops b)) = num ops (a + b)"
proof -
  have "\<bar>a\<bar> \<le> 2 ^ 24 \<and> \<bar>b\<bar> \<le> 2 ^ 24 \<and> \<bar>a + b\<bar> \<le> 2 ^ 24" using assms(2-4) by simp
  then show ?thesis using assms(1) unfolding integer_sums_exact_def by blast
qed

section \<open>Lemmas on arrays and loops\<close>

lemma length_ta_set [simp]: "length (ta_set xs i v) = length xs"
  by (simp add: ta_set_def)

lemma length_zero_array [simp]: "length (zero_array ops n) = n"
  by (simp add: zero_array_def)

lemma nth_zero_array [simp]: "i < n \<Longrightarrow> zero_array ops n ! i = num ops 0"
  by (simp add: zero_array_def)

lemma set_indices [simp]: "set (indices n) = {i. 0 \<le> i \<and> i < n}"
proof -
  have "x \<in> int ` {0..<nat n}" if "0 \<le> x" "x < n" for x
  proof -
    have "nat x \<in> {0..<nat n}" using that by simp
    moreover have "x = int (nat x)" using that by simp
    ultimately show ?thesis by (rule rev_image_eqI)
  qed
  moreover have "0 \<le> x \<and> x < n" if "x \<in> int ` {0..<nat n}" for x
    using that by auto
  ultimately show ?thesis unfolding indices_def by auto
qed

lemma writes_Nil [simp]: "writes [] xs = xs"
  by (simp add: writes_def)

lemma writes_append [simp]: "writes (a @ b) xs = writes b (writes a xs)"
  by (simp add: writes_def)

lemma writes_single [simp]: "writes [(i, v)] xs = ta_set xs i v"
  by (simp add: writes_def)

lemma length_writes [simp]: "length (writes ws xs) = length xs"
  by (induction ws arbitrary: xs) (auto simp: writes_def)

lemma fold_writes: "fold (\<lambda>i. writes (W i)) js xs = writes (concat (map W js)) xs"
  by (induction js arbitrary: xs) auto

lemma for_upto_writes:
  "for_upto n (\<lambda>i. writes (W i)) = writes (concat (map W (indices n)))"
  by (intro ext) (simp add: for_upto_def fold_writes)

lemma for_step2_writes:
  "for_step2 n (\<lambda>i. writes (W i)) = writes (concat (map W (evens n)))"
  by (intro ext) (simp add: for_step2_def fold_writes)

text \<open>A write whose value no other write to the same index contradicts is visible at the end.\<close>

lemma writes_nth:
  assumes "(i, v) \<in> set ws" and "\<forall>w. (i, w) \<in> set ws \<longrightarrow> w = v"
    and "0 \<le> i" and "i < int (length xs)"
  shows "writes ws xs ! nat i = v"
  using assms(1,2)
proof (induction ws rule: rev_induct)
  case Nil
  then show ?case by simp
next
  case (snoc p ws)
  obtain j w where p: "p = (j, w)" by (cases p)
  have len: "nat i < length (writes ws xs)" using assms(3,4) by simp
  show ?case
  proof (cases "j = i")
    case True
    have "(i, w) \<in> set (ws @ [p])" using True p by simp
    then have "w = v" using snoc.prems(2) by blast
    then show ?thesis using True p len assms(3,4) by (simp add: ta_set_def)
  next
    case False
    have in_ws: "(i, v) \<in> set ws" using snoc.prems(1) False p by auto
    have "\<forall>w. (i, w) \<in> set ws \<longrightarrow> w = v" using snoc.prems(2) by auto
    then have "writes ws xs ! nat i = v" using snoc.IH in_ws by blast
    moreover have "nat j \<noteq> nat i \<or> j < 0" using False assms(3) by auto
    then have "ta_set (writes ws xs) j w ! nat i = writes ws xs ! nat i"
      by (auto simp: ta_set_def)
    ultimately show ?thesis using p by simp
  qed
qed

lemma writes_nth_other:
  assumes "\<forall>w. (i, w) \<notin> set ws" and "0 \<le> i"
  shows "writes ws xs ! nat i = xs ! nat i"
  using assms(1)
proof (induction ws rule: rev_induct)
  case Nil
  then show ?case by simp
next
  case (snoc p ws)
  obtain j w where p: "p = (j, w)" by (cases p)
  with snoc.prems have "j \<noteq> i" by auto
  then have "nat j \<noteq> nat i \<or> j < 0" using assms(2) by auto
  then have "ta_set (writes ws xs) j w ! nat i = writes ws xs ! nat i"
    by (auto simp: ta_set_def)
  moreover have "writes ws xs ! nat i = xs ! nat i" using snoc by auto
  ultimately show ?case using p by simp
qed

subsection \<open>Flat indices of a three-dimensional array\<close>

lemma idx3_bound:
  fixes b t c B T C :: int
  assumes "0 \<le> b" "b < B" "0 \<le> t" "t < T" "0 \<le> c" "c < C"
  shows "0 \<le> b * T * C + t * C + c" and "b * T * C + t * C + c < B * T * C"
proof -
  show "0 \<le> b * T * C + t * C + c" using assms by simp
  have "t * C + c < T * C"
  proof -
    have "t * C + c < t * C + C" using assms by simp
    also have "\<dots> = (t + 1) * C" by (simp add: algebra_simps)
    also have "\<dots> \<le> T * C" using assms by (intro mult_right_mono) auto
    finally show ?thesis .
  qed
  then have "b * T * C + t * C + c < b * (T * C) + T * C" by (simp add: algebra_simps)
  also have "\<dots> = (b + 1) * (T * C)" by (simp add: algebra_simps)
  also have "\<dots> \<le> B * (T * C)" using assms by (intro mult_right_mono) auto
  finally show "b * T * C + t * C + c < B * T * C" by (simp add: algebra_simps)
qed

lemma idx2_inj:
  fixes q r q' r' n :: int
  assumes "q * n + r = q' * n + r'" "0 \<le> r" "r < n" "0 \<le> r'" "r' < n"
  shows "q = q' \<and> r = r'"
proof -
  have "(q * n + r) div n = q"
    using assms(2,3) by (simp add: div_pos_pos_trivial)
  moreover have "(q' * n + r') div n = q'"
    using assms(4,5) by (simp add: div_pos_pos_trivial)
  ultimately have "q = q'" using assms(1) by metis
  then show ?thesis using assms by simp
qed

lemma idx3_inj:
  fixes b t c b' t' c' T C :: int
  assumes "b * T * C + t * C + c = b' * T * C + t' * C + c'"
    "0 \<le> t" "t < T" "0 \<le> c" "c < C" "0 \<le> t'" "t' < T" "0 \<le> c'" "c' < C"
  shows "b = b' \<and> t = t' \<and> c = c'"
proof -
  have "(b * T + t) * C + c = (b' * T + t') * C + c'"
    using assms(1) by (simp add: algebra_simps)
  then have 1: "b * T + t = b' * T + t'" and 2: "c = c'"
    using idx2_inj[of "b * T + t" C c "b' * T + t'" c'] assms by auto
  from 1 have "b = b' \<and> t = t'" using idx2_inj[of b T t b' t'] assms by auto
  with 2 show ?thesis by simp
qed

lemma idx3_surj:
  fixes k B T C :: int
  assumes "0 \<le> k" "k < B * T * C" "0 \<le> B" "0 \<le> T" "0 \<le> C"
  shows "\<exists>b t c. 0 \<le> b \<and> b < B \<and> 0 \<le> t \<and> t < T \<and> 0 \<le> c \<and> c < C \<and> k = b * T * C + t * C + c"
proof -
  have C: "0 < C" using assms by (cases "C = 0") auto
  have T: "0 < T" using assms by (cases "T = 0") auto
  define c where "c = k mod C"
  define q where "q = k div C"
  define t where "t = q mod T"
  define b where "b = q div T"
  have k: "k = q * C + c" by (simp add: q_def c_def)
  have q: "q = b * T + t" by (simp add: b_def t_def)
  have c: "0 \<le> c" "c < C" using C by (simp_all add: c_def)
  have t: "0 \<le> t" "t < T" using T by (simp_all add: t_def)
  have "0 \<le> q" using assms C by (simp add: q_def pos_imp_zdiv_nonneg_iff)
  then have b0: "0 \<le> b" using T by (simp add: b_def pos_imp_zdiv_nonneg_iff)
  have qB: "q < B * T"
  proof (rule ccontr)
    assume "\<not> q < B * T"
    then have "B * T * C \<le> q * C" using C by (intro mult_right_mono) auto
    also have "\<dots> \<le> k" using k c by simp
    finally show False using assms by simp
  qed
  have bB: "b < B"
  proof (rule ccontr)
    assume "\<not> b < B"
    then have "B * T \<le> b * T" using T by (intro mult_right_mono) auto
    also have "\<dots> \<le> q" using q t by simp
    finally show False using qB by simp
  qed
  have "k = b * T * C + t * C + c" using k q by (simp add: algebra_simps)
  with c t b0 bB show ?thesis by blast
qed

lemma for3_writes:
  "for_upto B (\<lambda>b. for_upto T (\<lambda>t. for_upto C (\<lambda>c xs. ta_set xs (f b t c) (g b t c)))) xs
   = writes (concat (map (\<lambda>b. concat (map (\<lambda>t. concat (map (\<lambda>c. [(f b t c, g b t c)])
        (indices C))) (indices T))) (indices B))) xs"
proof -
  have 1: "(\<lambda>c xs. ta_set xs (f b t c) (g b t c)) = (\<lambda>c. writes [(f b t c, g b t c)])" for b t
    by (intro ext) simp
  show ?thesis
    by (simp only: 1 for_upto_writes)
qed

lemma for3_nth:
  assumes same: "\<And>b' t' c'. 0 \<le> b' \<Longrightarrow> b' < B \<Longrightarrow> 0 \<le> t' \<Longrightarrow> t' < T \<Longrightarrow> 0 \<le> c' \<Longrightarrow> c' < C
              \<Longrightarrow> f b' t' c' = f b t c \<Longrightarrow> g b' t' c' = g b t c"
    and rng: "0 \<le> b" "b < B" "0 \<le> t" "t < T" "0 \<le> c" "c < C"
    and inside: "0 \<le> f b t c" "f b t c < int (length xs)"
  shows "for_upto B (\<lambda>b. for_upto T (\<lambda>t. for_upto C (\<lambda>c xs. ta_set xs (f b t c) (g b t c)))) xs
           ! nat (f b t c) = g b t c"
proof -
  let ?ws = "concat (map (\<lambda>b. concat (map (\<lambda>t. concat (map (\<lambda>c. [(f b t c, g b t c)])
        (indices C))) (indices T))) (indices B))"
  have mem: "(i, v) \<in> set ?ws \<longleftrightarrow>
      (\<exists>b' t' c'. 0 \<le> b' \<and> b' < B \<and> 0 \<le> t' \<and> t' < T \<and> 0 \<le> c' \<and> c' < C
         \<and> i = f b' t' c' \<and> v = g b' t' c')" for i v
    by auto
  have "(f b t c, g b t c) \<in> set ?ws"
    unfolding mem using rng by blast
  moreover have "\<forall>w. (f b t c, w) \<in> set ?ws \<longrightarrow> w = g b t c"
    unfolding mem using same by metis
  ultimately have "writes ?ws xs ! nat (f b t c) = g b t c"
    using inside by (rule writes_nth)
  then show ?thesis by (simp only: for3_writes)
qed

lemma for3_length [simp]:
  "length (for_upto B (\<lambda>b. for_upto T (\<lambda>t. for_upto C (\<lambda>c xs. ta_set xs (f b t c) (g b t c)))) xs)
   = length xs"
  by (simp only: for3_writes length_writes)

lemma ta_get_in [simp]: "0 \<le> i \<Longrightarrow> i < int (length xs) \<Longrightarrow> ta_get ops xs i = xs ! nat i"
  by (simp add: ta_get_def)

lemma product3 [simp]: "product [B, T, C] = B * T * (C :: int)"
  by (simp add: product_def)

lemma wf3:
  assumes "wf t" "shape t = [B, T, C]"
  shows "0 \<le> B" "0 \<le> T" "0 \<le> C" "int (length (data t)) = B * T * C"
  using assms by (simp_all add: wf_def)

lemma transpose_t_12:
  "shape t = [B, T, C] \<Longrightarrow> transpose_t ops t 1 2 =
     Inr \<lparr>data = for_upto B (\<lambda>b. for_upto T (\<lambda>t'. for_upto C (\<lambda>c nd.
              ta_set nd (b * C * T + c * T + t') (ta_get ops (data t) (b * T * C + t' * C + c)))))
              (zero_array ops (length (data t))),
          shape = [B, C, T], device = device t, dtype = dtype t\<rparr>"
  by (simp add: transpose_t_def)

lemma transpose_t_21:
  "shape t = [B, T, C] \<Longrightarrow> transpose_t ops t 2 1 =
     Inr \<lparr>data = for_upto B (\<lambda>b. for_upto T (\<lambda>t'. for_upto C (\<lambda>c nd.
              ta_set nd (b * T * C + t' * C + c) (ta_get ops (data t) (b * C * T + c * T + t')))))
              (zero_array ops (length (data t))),
          shape = [B, T, C], device = device t, dtype = dtype t\<rparr>"
  by (simp add: transpose_t_def)

text \<open>The effect of the two triple loops on a buffer of the right length.\<close>

lemma loop12_nth:
  fixes B T C :: int
  assumes len: "int (length d) = B * T * C" "length xs = length d"
    and rng: "0 \<le> b" "b < B" "0 \<le> t" "t < T" "0 \<le> c" "c < C"
  shows "for_upto B (\<lambda>b. for_upto T (\<lambda>t'. for_upto C (\<lambda>c nd.
           ta_set nd (b * C * T + c * T + t') (ta_get ops d (b * T * C + t' * C + c))))) xs
         ! nat (b * C * T + c * T + t) = d ! nat (b * T * C + t * C + c)"
proof -
  let ?f = "\<lambda>b t c. b * C * T + c * T + t"
  let ?g = "\<lambda>b t c. ta_get ops d (b * T * C + t * C + c)"
  have same: "?g b' t' c' = ?g b t c"
    if "0 \<le> b'" "b' < B" "0 \<le> t'" "t' < T" "0 \<le> c'" "c' < C" "?f b' t' c' = ?f b t c"
    for b' t' c'
    using idx3_inj[of b' C T c' t' b c t] that rng by simp
  have in1: "0 \<le> ?f b t c" "?f b t c < int (length xs)"
    using idx3_bound[of b B c C t T] rng len by (simp_all add: mult.commute mult.left_commute)
  have "for_upto B (\<lambda>b. for_upto T (\<lambda>t'. for_upto C (\<lambda>c nd. ta_set nd (?f b t' c) (?g b t' c)))) xs
          ! nat (?f b t c) = ?g b t c"
    by (rule for3_nth[where f = "?f" and g = "?g", OF same rng in1])
  moreover have "?g b t c = d ! nat (b * T * C + t * C + c)"
    using idx3_bound[of b B t T c C] rng len by simp
  ultimately show ?thesis by simp
qed

lemma loop21_nth:
  fixes B T C :: int
  assumes len: "int (length d) = B * T * C" "length xs = length d"
    and rng: "0 \<le> b" "b < B" "0 \<le> t" "t < T" "0 \<le> c" "c < C"
  shows "for_upto B (\<lambda>b. for_upto T (\<lambda>t'. for_upto C (\<lambda>c nd.
           ta_set nd (b * T * C + t' * C + c) (ta_get ops d (b * C * T + c * T + t'))))) xs
         ! nat (b * T * C + t * C + c) = d ! nat (b * C * T + c * T + t)"
proof -
  let ?f = "\<lambda>b t c. b * T * C + t * C + c"
  let ?g = "\<lambda>b t c. ta_get ops d (b * C * T + c * T + t)"
  have same: "?g b' t' c' = ?g b t c"
    if "0 \<le> b'" "b' < B" "0 \<le> t'" "t' < T" "0 \<le> c'" "c' < C" "?f b' t' c' = ?f b t c"
    for b' t' c'
    using idx3_inj[of b' T C t' c' b t c] that rng by simp
  have in1: "0 \<le> ?f b t c" "?f b t c < int (length xs)"
    using idx3_bound[of b B t T c C] rng len by simp_all
  have "for_upto B (\<lambda>b. for_upto T (\<lambda>t'. for_upto C (\<lambda>c nd. ta_set nd (?f b t' c) (?g b t' c)))) xs
          ! nat (?f b t c) = ?g b t c"
    by (rule for3_nth[where f = "?f" and g = "?g", OF same rng in1])
  moreover have "?g b t c = d ! nat (b * C * T + c * T + t)"
    using idx3_bound[of b B c C t T] rng len by (simp add: mult.commute mult.left_commute)
  ultimately show ?thesis by simp
qed

lemma list_eq3:
  fixes B T C :: int
  assumes "int (length xs) = B * T * C" "length ys = length xs" "0 \<le> B" "0 \<le> T" "0 \<le> C"
    and eq: "\<And>b t c. 0 \<le> b \<Longrightarrow> b < B \<Longrightarrow> 0 \<le> t \<Longrightarrow> t < T \<Longrightarrow> 0 \<le> c \<Longrightarrow> c < C
                \<Longrightarrow> xs ! nat (b * T * C + t * C + c) = ys ! nat (b * T * C + t * C + c)"
  shows "xs = ys"
proof (rule nth_equalityI)
  show "length xs = length ys" using assms(2) by simp
next
  fix i assume "i < length xs"
  then have "0 \<le> int i" "int i < B * T * C" using assms(1) by simp_all
  then obtain b t c where "0 \<le> b" "b < B" "0 \<le> t" "t < T" "0 \<le> c" "c < C"
      "int i = b * T * C + t * C + c"
    using idx3_surj[of "int i" B T C] assms(3-5) by blast
  then show "xs ! i = ys ! i" using eq[of b t c] by (metis nat_int)
qed

lemma indices_numeral_simps:
  "indices 0 = []" "indices 1 = [0]" "indices 2 = [0, 1]" "indices 3 = [0, 1, 2]"
  "indices 4 = [0, 1, 2, 3]"
  by (simp_all add: indices_def upt_conv_Cons eval_nat_numeral)

section \<open>Transposition\<close>

text \<open>
  C6. For every well-formed rank-3 tensor \<open>t\<close>, transposing the axes 1 and 2 twice
  succeeds both times and returns \<open>t\<close>: the same shape, the same elements, the same
  device and element type.
\<close>

theorem transpose_round_trip:
  assumes "wf t" and "length (shape t) = 3"
  shows "ebind (transpose_t ops t 1 2) (\<lambda>u. transpose_t ops u 1 2) = Inr t"
proof -
  obtain B T C where shp: "shape t = [B, T, C]"
    using assms(2) by (auto simp: length_Suc_conv eval_nat_numeral)
  note w = wf3[OF assms(1) shp]
  let ?d1 = "for_upto B (\<lambda>b. for_upto T (\<lambda>t'. for_upto C (\<lambda>c nd.
              ta_set nd (b * C * T + c * T + t') (ta_get ops (data t) (b * T * C + t' * C + c)))))
              (zero_array ops (length (data t)))"
  let ?u = "\<lparr>data = ?d1, shape = [B, C, T], device = device t, dtype = dtype t\<rparr>"
  let ?d2 = "for_upto B (\<lambda>b. for_upto C (\<lambda>t'. for_upto T (\<lambda>c nd.
              ta_set nd (b * T * C + c * C + t') (ta_get ops ?d1 (b * C * T + t' * T + c)))))
              (zero_array ops (length ?d1))"
  have 1: "transpose_t ops t 1 2 = Inr ?u" by (rule transpose_t_12[OF shp])
  have 2: "transpose_t ops ?u 1 2 =
             Inr \<lparr>data = ?d2, shape = [B, T, C], device = device t, dtype = dtype t\<rparr>"
    using transpose_t_12[of ?u B C T ops] by simp
  have len1: "length ?d1 = length (data t)" by (simp only: for3_length length_zero_array)
  have len2: "length ?d2 = length (data t)" by (simp only: for3_length length_zero_array len1)
  have "?d2 = data t"
  proof (rule list_eq3[where B = B and T = T and C = C])
    show "int (length ?d2) = B * T * C" using len2 w(4) by simp
    show "length (data t) = length ?d2" using len2 by simp
    show "0 \<le> B" "0 \<le> T" "0 \<le> C" using w by auto
  next
    fix b t' c :: int
    assume r: "0 \<le> b" "b < B" "0 \<le> t'" "t' < T" "0 \<le> c" "c < C"
    have l1: "int (length ?d1) = B * C * T" using len1 w(4) by (simp add: mult.commute mult.left_commute)
    have "?d2 ! nat (b * T * C + t' * C + c) = ?d1 ! nat (b * C * T + c * T + t')"
      by (rule loop12_nth[OF l1 _ r(1,2) r(5,6) r(3,4)]) simp
    also have "\<dots> = data t ! nat (b * T * C + t' * C + c)"
      by (rule loop12_nth[OF w(4) _ r]) simp
    finally show "?d2 ! nat (b * T * C + t' * C + c) = data t ! nat (b * T * C + t' * C + c)" .
  qed
  then have "\<lparr>data = ?d2, shape = [B, T, C], device = device t, dtype = dtype t\<rparr> = t"
    using shp by simp
  then show ?thesis unfolding 1 using 2 by (simp add: ebind_def)
qed


theorem transpose_round_trip_witness:
  "wf \<lparr>data = [Some 1, Some 2, Some 3, Some 4, Some 5, Some 6], shape = [1, 2, 3],
       device = Some ''cpu'', dtype = Some ''float32''\<rparr>
   \<and> length (shape \<lparr>data = [Some 1, Some 2, Some 3, Some 4, Some 5, Some (6 :: real)],
          shape = [1, 2, 3 :: int], device = Some ''cpu'', dtype = Some ''float32''\<rparr>) = 3
   \<and> ebind (transpose_t ideal \<lparr>data = [Some 1, Some 2, Some 3, Some 4, Some 5, Some 6],
          shape = [1, 2, 3], device = Some ''cpu'', dtype = Some ''float32''\<rparr> 1 2)
        (\<lambda>u. transpose_t ideal u 1 2)
     = Inr \<lparr>data = [Some 1, Some 2, Some 3, Some 4, Some 5, Some 6], shape = [1, 2, 3],
            device = Some ''cpu'', dtype = Some ''float32''\<rparr>"
  using transpose_round_trip [of "\<lparr>data = [Some 1, Some 2, Some 3, Some 4, Some 5, Some 6],
       shape = [1, 2, 3], device = Some ''cpu'', dtype = Some ''float32''\<rparr>" ideal]
  by (simp add: wf_def product_def)

text \<open>
  C10. For every well-formed rank-3 tensor \<open>t\<close> of shape \<open>[B, T, C]\<close>, the call with the
  axes in the order \<open>(2, 1)\<close> succeeds; the result keeps the shape \<open>[B, T, C]\<close> of \<open>t\<close>, its
  element at \<open>(b, t', c)\<close> is the element of \<open>t\<close> at the flat index \<open>b * C * T + c * T + t'\<close>,
  and applying the \<open>(1, 2)\<close> transposition to its buffer gives back the buffer of \<open>t\<close>:
  the buffer was permuted by the inverse of that transposition.
\<close>

theorem transpose_21:
  assumes "wf t" and "shape t = [B, T, C]"
  shows "\<exists>r. transpose_t ops t 2 1 = Inr r \<and> shape r = shape t
           \<and> length (data r) = length (data t)
           \<and> (\<forall>b t' c. 0 \<le> b \<and> b < B \<and> 0 \<le> t' \<and> t' < T \<and> 0 \<le> c \<and> c < C \<longrightarrow>
                 data r ! nat (b * T * C + t' * C + c) = data t ! nat (b * C * T + c * T + t'))
           \<and> ebind (transpose_t ops r 1 2) (\<lambda>u. Inr (data u)) = Inr (data t)"
proof -
  note w = wf3[OF assms]
  let ?d1 = "for_upto B (\<lambda>b. for_upto T (\<lambda>t'. for_upto C (\<lambda>c nd.
              ta_set nd (b * T * C + t' * C + c) (ta_get ops (data t) (b * C * T + c * T + t')))))
              (zero_array ops (length (data t)))"
  let ?r = "\<lparr>data = ?d1, shape = [B, T, C], device = device t, dtype = dtype t\<rparr>"
  let ?d2 = "for_upto B (\<lambda>b. for_upto T (\<lambda>t'. for_upto C (\<lambda>c nd.
              ta_set nd (b * C * T + c * T + t') (ta_get ops ?d1 (b * T * C + t' * C + c)))))
              (zero_array ops (length ?d1))"
  have 1: "transpose_t ops t 2 1 = Inr ?r" by (rule transpose_t_21[OF assms(2)])
  have 2: "transpose_t ops ?r 1 2 =
             Inr \<lparr>data = ?d2, shape = [B, C, T], device = device t, dtype = dtype t\<rparr>"
    using transpose_t_12[of ?r B T C ops] by simp
  have len1: "length ?d1 = length (data t)" by (simp only: for3_length length_zero_array)
  have len2: "length ?d2 = length (data t)" by (simp only: for3_length length_zero_array len1)
  have l1: "int (length ?d1) = B * T * C" using len1 w(4) by simp
  have nth1: "?d1 ! nat (b * T * C + t' * C + c) = data t ! nat (b * C * T + c * T + t')"
    if "0 \<le> b" "b < B" "0 \<le> t'" "t' < T" "0 \<le> c" "c < C" for b t' c
    by (rule loop21_nth[OF w(4) _ that]) simp
  have "?d2 = data t"
  proof (rule list_eq3[where B = B and T = C and C = T])
    show "int (length ?d2) = B * C * T" using len2 w(4) by (simp add: mult.commute mult.left_commute)
    show "length (data t) = length ?d2" using len2 by simp
    show "0 \<le> B" "0 \<le> T" "0 \<le> C" using w by auto
  next
    fix b c t' :: int
    assume r: "0 \<le> b" "b < B" "0 \<le> c" "c < C" "0 \<le> t'" "t' < T"
    have "?d2 ! nat (b * C * T + c * T + t') = ?d1 ! nat (b * T * C + t' * C + c)"
      by (rule loop12_nth[OF l1 _ r(1,2) r(5,6) r(3,4)]) simp
    also have "\<dots> = data t ! nat (b * C * T + c * T + t')"
      using nth1 r by simp
    finally show "?d2 ! nat (b * C * T + c * T + t') = data t ! nat (b * C * T + c * T + t')" .
  qed
  then have 3: "ebind (transpose_t ops ?r 1 2) (\<lambda>u. Inr (data u)) = Inr (data t)"
    unfolding 2 by (simp add: ebind_def)
  have 4: "\<forall>b t' c. 0 \<le> b \<and> b < B \<and> 0 \<le> t' \<and> t' < T \<and> 0 \<le> c \<and> c < C \<longrightarrow>
                 data ?r ! nat (b * T * C + t' * C + c) = data t ! nat (b * C * T + c * T + t')"
    using nth1 by simp
  have 5: "shape ?r = shape t" "length (data ?r) = length (data t)"
    using assms(2) len1 by simp_all
  show ?thesis
    using 1 3 4 5 by blast
qed


theorem transpose_21_witness:
  "wf \<lparr>data = [Some 1, Some 2, Some 3, Some 4, Some 5, Some (6 :: real)], shape = [1, 2, 3],
       device = Some ''cpu'', dtype = Some ''float32''\<rparr>
   \<and> transpose_t ideal \<lparr>data = [Some 1, Some 2, Some 3, Some 4, Some 5, Some 6],
          shape = [1, 2, 3], device = Some ''cpu'', dtype = Some ''float32''\<rparr> 2 1
       = Inr \<lparr>data = [Some 1, Some 3, Some 5, Some 2, Some 4, Some 6], shape = [1, 2, 3],
              device = Some ''cpu'', dtype = Some ''float32''\<rparr>
   \<and> transpose_t ideal \<lparr>data = [Some 1, Some 3, Some 5, Some 2, Some 4, Some 6],
          shape = [1, 2, 3], device = Some ''cpu'', dtype = Some ''float32''\<rparr> 1 2
       = Inr \<lparr>data = [Some 1, Some 2, Some 3, Some 4, Some 5, Some 6], shape = [1, 3, 2],
              device = Some ''cpu'', dtype = Some ''float32''\<rparr>"
proof -
  let ?t = "\<lparr>data = [Some 1, Some 2, Some 3, Some 4, Some 5, Some (6 :: real)],
             shape = [1, 2, 3 :: int], device = Some ''cpu'', dtype = Some ''float32''\<rparr>"
  have w: "wf ?t" by (simp add: wf_def product_def)
  have s: "shape ?t = [1, 2, 3]" by simp
  from transpose_21 [OF w s, of ideal] obtain r where
    r: "transpose_t ideal ?t 2 1 = Inr r" "shape r = shape ?t"
       "ebind (transpose_t ideal r 1 2) (\<lambda>u. Inr (data u)) = Inr (data ?t)"
    by blast
  have e: "transpose_t ideal ?t 2 1
       = Inr \<lparr>data = [Some 1, Some 3, Some 5, Some 2, Some 4, Some 6], shape = [1, 2, 3],
              device = Some ''cpu'', dtype = Some ''float32''\<rparr>"
    by (simp add: transpose_t_def for_upto_def indices_numeral_simps ta_set_def ta_get_def
        zero_array_def)
  with r(1) have r': "r = \<lparr>data = [Some 1, Some 3, Some 5, Some 2, Some 4, Some 6],
       shape = [1, 2, 3], device = Some ''cpu'', dtype = Some ''float32''\<rparr>" by simp
  have "transpose_t ideal r 1 2
       = Inr \<lparr>data = [Some 1, Some 2, Some 3, Some 4, Some 5, Some 6], shape = [1, 3, 2],
              device = Some ''cpu'', dtype = Some ''float32''\<rparr>"
    using r(3) unfolding r' by (simp add: transpose_t_def ebind_def)
  with w e show ?thesis unfolding r' by simp
qed

section \<open>Resetting the streaming state\<close>

lemma reset_loop_writes:
  "reset_loop ops m d =
     writes (concat (map (\<lambda>i. if mask_at m i then [(i, num ops 0)] else [])
       (indices (min (int (length m)) (int (length d)))))) d"
proof -
  have 1: "(\<lambda>i d. if mask_at m i then ta_set d i (num ops 0) else d)
         = (\<lambda>i. writes (if mask_at m i then [(i, num ops 0)] else []))"
    by (intro ext) simp
  show ?thesis unfolding reset_loop_def 1 for_upto_writes ..
qed

lemma length_reset_loop [simp]: "length (reset_loop ops m d) = length d"
  by (simp add: reset_loop_writes)

lemma reset_loop_nth:
  assumes "i < length d"
  shows "reset_loop ops m d ! i = (if i < length m \<and> m ! i then num ops 0 else d ! i)"
proof -
  let ?ws = "concat (map (\<lambda>i. if mask_at m i then [(i, num ops 0)] else [])
       (indices (min (int (length m)) (int (length d)))))"
  have mem: "(j, w) \<in> set ?ws \<longleftrightarrow>
      (0 \<le> j \<and> j < int (length m) \<and> j < int (length d) \<and> m ! nat j \<and> w = num ops 0)" for j w
    by (auto simp: mask_at_def)
  show ?thesis
  proof (cases "i < length m \<and> m ! i")
    case True
    have "(int i, num ops 0) \<in> set ?ws" unfolding mem using True assms by simp
    moreover have "\<forall>w. (int i, w) \<in> set ?ws \<longrightarrow> w = num ops 0" unfolding mem by simp
    ultimately have "writes ?ws d ! nat (int i) = num ops 0"
      using assms by (intro writes_nth) auto
    then show ?thesis using True by (simp add: reset_loop_writes)
  next
    case False
    have "\<forall>w. (int i, w) \<notin> set ?ws" unfolding mem using False by auto
    then have "writes ?ws d ! nat (int i) = d ! nat (int i)"
      by (intro writes_nth_other) auto
    then show ?thesis using False by (auto simp add: reset_loop_writes)
  qed
qed

lemma new_state_invariant:
  "NodeStreamingState_new ops bs dev = Inr s \<Longrightarrow> int (length (data (offsets s))) = batchSize s"
  "TransformerState_new ops bs dv None = Inr s' \<Longrightarrow> int (length (data (offsets s'))) = batchSize s'"
  by (auto simp: NodeStreamingState_new_def TransformerState_new_def server_zeros_def zeros_def
      new_array_def ebind_def product_def Let_def split: if_splits)


text \<open>
  C2. For a streaming state whose offsets buffer has \<open>batchSize\<close> entries, as the
  constructors make it: \<^verbatim>\<open>reset()\<close> without a mask sets every offset to zero;
  \<^verbatim>\<open>reset(mask)\<close> sets offset \<open>i\<close> to zero exactly when \<open>i < min(mask.length, batchSize)\<close> and
  \<open>mask[i]\<close> is true, and leaves every other offset, those at or beyond \<open>mask.length\<close>
  included, as it was.  The method of \<^verbatim>\<open>TransformerState\<close>, whose mask is mandatory, does
  the same as the one of \<^verbatim>\<open>NodeStreamingState\<close> with a mask.
\<close>

theorem reset_offsets:
  assumes "int (length (data (offsets s))) = batchSize s"
  shows "data (offsets (NodeStreamingState_reset ops s None))
           = replicate (nat (batchSize s)) (num ops 0)
       \<and> data (offsets (NodeStreamingState_reset ops s (Some m)))
           = map (\<lambda>i. if i < min (length m) (nat (batchSize s)) \<and> m ! i then num ops 0
                       else data (offsets s) ! i) [0..<nat (batchSize s)]
       \<and> TransformerState_reset ops s m = NodeStreamingState_reset ops s (Some m)"
proof -
  have n: "nat (batchSize s) = length (data (offsets s))" using assms by simp
  have "data (offsets (NodeStreamingState_reset ops s None))
           = replicate (nat (batchSize s)) (num ops 0)"
    by (simp add: NodeStreamingState_reset_def n map_replicate_const)
  moreover have "data (offsets (NodeStreamingState_reset ops s (Some m)))
           = map (\<lambda>i. if i < min (length m) (nat (batchSize s)) \<and> m ! i then num ops 0
                       else data (offsets s) ! i) [0..<nat (batchSize s)]"
    unfolding n by (rule nth_equalityI) (simp_all add: NodeStreamingState_reset_def reset_loop_nth)
  moreover have "TransformerState_reset ops s m = NodeStreamingState_reset ops s (Some m)"
    by (simp add: TransformerState_reset_def NodeStreamingState_reset_def)
  ultimately show ?thesis by blast
qed


theorem reset_offsets_witness:
  "int (length (data (offsets \<lparr>batchSize = 3, sdevice = ''cpu'',
       offsets = \<lparr>data = [Some 10, Some 20, Some (30 :: real)], shape = [3 :: int],
                  device = Some ''cpu'', dtype = Some ''int32''\<rparr>, execMask = None\<rparr>)))
     = batchSize \<lparr>batchSize = 3, sdevice = ''cpu'',
       offsets = \<lparr>data = [Some 10, Some 20, Some (30 :: real)], shape = [3 :: int],
                  device = Some ''cpu'', dtype = Some ''int32''\<rparr>, execMask = None\<rparr>
   \<and> data (offsets (NodeStreamingState_reset ideal \<lparr>batchSize = 3, sdevice = ''cpu'',
       offsets = \<lparr>data = [Some 10, Some 20, Some 30], shape = [3],
                  device = Some ''cpu'', dtype = Some ''int32''\<rparr>, execMask = None\<rparr> None))
     = [Some 0, Some 0, Some 0]
   \<and> data (offsets (NodeStreamingState_reset ideal \<lparr>batchSize = 3, sdevice = ''cpu'',
       offsets = \<lparr>data = [Some 10, Some 20, Some 30], shape = [3],
                  device = Some ''cpu'', dtype = Some ''int32''\<rparr>, execMask = None\<rparr>
         (Some [True, False, True])))
     = [Some 0, Some 20, Some 0]
   \<and> data (offsets (NodeStreamingState_reset ideal \<lparr>batchSize = 3, sdevice = ''cpu'',
       offsets = \<lparr>data = [Some 10, Some 20, Some 30], shape = [3],
                  device = Some ''cpu'', dtype = Some ''int32''\<rparr>, execMask = None\<rparr>
         (Some [True, True])))
     = [Some 0, Some 0, Some 30]"
  using
    reset_offsets [of "\<lparr>batchSize = 3, sdevice = ''cpu'',
       offsets = \<lparr>data = [Some 10, Some 20, Some 30], shape = [3],
                  device = Some ''cpu'', dtype = Some ''int32''\<rparr>, execMask = None\<rparr>"
       ideal "[True, False, True]"]
    reset_offsets [of "\<lparr>batchSize = 3, sdevice = ''cpu'',
       offsets = \<lparr>data = [Some 10, Some 20, Some 30], shape = [3],
                  device = Some ''cpu'', dtype = Some ''int32''\<rparr>, execMask = None\<rparr>"
       ideal "[True, True]"]
  by (simp add: ideal_def upt_conv_Cons eval_nat_numeral)

section \<open>Elementwise sum\<close>

lemma fold_product: "fold (\<lambda>dim acc. acc * dim) ds (k :: 'd :: comm_monoid_mult) = k * prod_list ds"
  by (induction ds arbitrary: k) (simp_all add: mult.assoc)

lemma product_prod_list: "product ds = prod_list (ds :: ('d :: comm_monoid_mult) list)"
  by (simp add: product_def fold_product)

lemma for1_writes:
  "for_upto n (\<lambda>i r. ta_set r i (g i)) = writes (concat (map (\<lambda>i. [(i, g i)]) (indices n)))"
proof -
  have "(\<lambda>i r. ta_set r i (g i)) = (\<lambda>i. writes [(i, g i)])" by (intro ext) simp
  then show ?thesis by (simp only: for_upto_writes)
qed

lemma for1_length [simp]: "length (for_upto n (\<lambda>i r. ta_set r i (g i)) xs) = length xs"
  by (simp only: for1_writes length_writes)

lemma for1_nth:
  assumes "i < length xs" "int i < n"
  shows "for_upto n (\<lambda>i r. ta_set r i (g i)) xs ! i = g (int i)"
proof -
  let ?ws = "concat (map (\<lambda>i. [(i, g i)]) (indices n))"
  have mem: "(j, w) \<in> set ?ws \<longleftrightarrow> 0 \<le> j \<and> j < n \<and> w = g j" for j w by auto
  have "(int i, g (int i)) \<in> set ?ws" unfolding mem using assms by simp
  moreover have "\<forall>w. (int i, w) \<in> set ?ws \<longrightarrow> w = g (int i)" unfolding mem by simp
  ultimately have "writes ?ws xs ! nat (int i) = g (int i)"
    using assms by (intro writes_nth) auto
  then show ?thesis by (simp add: for1_writes)
qed

lemma for1_map:
  assumes "length xs = n"
  shows "for_upto (int n) (\<lambda>i r. ta_set r i (g i)) xs = map (\<lambda>i. g (int i)) [0..<n]"
  using assms by (intro nth_equalityI) (simp_all add: for1_nth)

lemma add_t_eq:
  "add_t ops a b =
     (if length (data a) \<noteq> length (data b) then Inl SameSize
      else Inr \<lparr>data = map (\<lambda>i. f32 ops (fadd ops (data a ! i) (data b ! i))) [0..<length (data a)],
                shape = shape a, device = device a, dtype = dtype a\<rparr>)"
proof (cases "length (data a) = length (data b)")
  case True
  have "for_upto (int (length (data a))) (\<lambda>i r.
              ta_set r i (f32 ops (fadd ops (ta_get ops (data a) i) (ta_get ops (data b) i))))
              (zero_array ops (length (data a)))
        = map (\<lambda>i. f32 ops (fadd ops (data a ! i) (data b ! i))) [0..<length (data a)]"
    using True by (simp add: for1_map)
  then show ?thesis using True by (simp add: add_t_def)
next
  case False
  then show ?thesis by (simp add: add_t_def)
qed

lemma shapes_differ:
  "(length xs \<noteq> length ys \<or> \<not> list_all (\<lambda>i. xs ! i = ys ! i) [0..<length xs]) \<longleftrightarrow> xs \<noteq> ys"
proof -
  have "list_all (\<lambda>i. xs ! i = ys ! i) [0..<length xs] \<longleftrightarrow> (\<forall>i<length xs. xs ! i = ys ! i)"
    by (auto simp add: list_all_iff)
  then show ?thesis
    using list_eq_iff_nth_eq[of xs ys] by blast
qed

lemma client_add_eq:
  "client_add ops a b =
     (if shape a \<noteq> shape b then Inl ShapesMustMatch
      else Inr \<lparr>data = map (\<lambda>i. f32 ops (fadd ops (data a ! i) (ta_get ops (data b) (int i))))
                         [0..<length (data a)],
                shape = shape a, device = device a, dtype = Some ''float32''\<rparr>)"
proof -
  have "for_upto (int (length (data a))) (\<lambda>i r.
              ta_set r i (f32 ops (fadd ops (ta_get ops (data a) i) (ta_get ops (data b) i))))
              (zero_array ops (length (data a)))
        = map (\<lambda>i. f32 ops (fadd ops (data a ! i) (ta_get ops (data b) (int i)))) [0..<length (data a)]"
    by (simp add: for1_map)
  then show ?thesis using shapes_differ[of "shape a" "shape b"] by (simp add: client_add_def)
qed

text \<open>
  C4 as the specification has it, refuted: the tensors of shapes \<open>[2, 3]\<close> and \<open>[3, 2]\<close> do
  not have identical shapes, and \<^verbatim>\<open>TensorUtils.add\<close> of the streaming transformer module
  (as \<^verbatim>\<open>ServerTensorUtils.add\<close>) returns their sum instead of failing.
\<close>

theorem add_counterexample:
  "shape \<lparr>data = replicate 6 (Some (1 :: real)), shape = [2, 3 :: int], device = Some ''cpu'',
          dtype = Some ''float32''\<rparr>
     \<noteq> shape \<lparr>data = replicate 6 (Some (2 :: real)), shape = [3, 2 :: int], device = Some ''cpu'',
          dtype = Some ''float32''\<rparr>
   \<and> add_t ideal
       \<lparr>data = replicate 6 (Some 1), shape = [2, 3], device = Some ''cpu'', dtype = Some ''float32''\<rparr>
       \<lparr>data = replicate 6 (Some 2), shape = [3, 2], device = Some ''cpu'', dtype = Some ''float32''\<rparr>
     = Inr \<lparr>data = replicate 6 (Some 3), shape = [2, 3], device = Some ''cpu'',
            dtype = Some ''float32''\<rparr>"
  by (simp add: add_t_eq ideal_def upt_conv_Cons eval_nat_numeral)

text \<open>
  C4, amended.  \<^verbatim>\<open>add(a, b)\<close> of the streaming transformer module and of the server
  compares the lengths of the two buffers: it fails when they differ and otherwise returns
  the elementwise sum with the shape of \<open>a\<close>.  The client's \<^verbatim>\<open>add\<close> compares the shapes: it
  fails when they differ and otherwise returns the elementwise sum.  On well-formed
  tensors of shapes \<open>[3]\<close> and \<open>[4]\<close> both fail, and on well-formed tensors of identical
  shapes the sum is returned.
\<close>

theorem add_result:
  "add_t ops a b =
     (if length (data a) \<noteq> length (data b) then Inl SameSize
      else Inr \<lparr>data = map (\<lambda>i. f32 ops (fadd ops (data a ! i) (data b ! i))) [0..<length (data a)],
                shape = shape a, device = device a, dtype = dtype a\<rparr>)
   \<and> client_add ops a b =
     (if shape a \<noteq> shape b then Inl ShapesMustMatch
      else Inr \<lparr>data = map (\<lambda>i. f32 ops (fadd ops (data a ! i) (ta_get ops (data b) (int i))))
                         [0..<length (data a)],
                shape = shape a, device = device a, dtype = Some ''float32''\<rparr>)
   \<and> (wf a \<and> wf b \<and> shape a = [3] \<and> shape b = [4] \<longrightarrow>
        add_t ops a b = Inl SameSize \<and> client_add ops a b = Inl ShapesMustMatch)
   \<and> (wf a \<and> wf b \<and> shape a = shape b \<longrightarrow>
        add_t ops a b = Inr \<lparr>data = map (\<lambda>i. f32 ops (fadd ops (data a ! i) (data b ! i)))
                                      [0..<length (data a)],
                             shape = shape a, device = device a, dtype = dtype a\<rparr>)"
proof (intro conjI impI)
  show "add_t ops a b =
     (if length (data a) \<noteq> length (data b) then Inl SameSize
      else Inr \<lparr>data = map (\<lambda>i. f32 ops (fadd ops (data a ! i) (data b ! i))) [0..<length (data a)],
                shape = shape a, device = device a, dtype = dtype a\<rparr>)"
    by (rule add_t_eq)
  show "client_add ops a b =
     (if shape a \<noteq> shape b then Inl ShapesMustMatch
      else Inr \<lparr>data = map (\<lambda>i. f32 ops (fadd ops (data a ! i) (ta_get ops (data b) (int i))))
                         [0..<length (data a)],
                shape = shape a, device = device a, dtype = Some ''float32''\<rparr>)"
    by (rule client_add_eq)
next
  assume h: "wf a \<and> wf b \<and> shape a = [3] \<and> shape b = [4]"
  then have "length (data a) = 3" "length (data b) = 4"
    by (auto simp: wf_def product_def)
  then show "add_t ops a b = Inl SameSize" by (simp add: add_t_eq)
  show "client_add ops a b = Inl ShapesMustMatch" using h by (simp add: client_add_eq)
next
  assume h: "wf a \<and> wf b \<and> shape a = shape b"
  then have "int (length (data a)) = int (length (data b))" by (simp add: wf_def)
  then show "add_t ops a b = Inr \<lparr>data = map (\<lambda>i. f32 ops (fadd ops (data a ! i) (data b ! i)))
                                      [0..<length (data a)],
                             shape = shape a, device = device a, dtype = dtype a\<rparr>"
    by (simp add: add_t_eq)
qed

theorem add_result_witness:
  "wf \<lparr>data = [Some 1, Some 2, Some (3 :: real)], shape = [3], device = Some ''cpu'',
       dtype = Some ''float32''\<rparr>
   \<and> wf \<lparr>data = [Some 4, Some 5, Some 6, Some (7 :: real)], shape = [4], device = Some ''cpu'',
       dtype = Some ''float32''\<rparr>
   \<and> add_t ideal
        \<lparr>data = [Some 1, Some 2, Some 3], shape = [3], device = Some ''cpu'',
         dtype = Some ''float32''\<rparr>
        \<lparr>data = [Some 4, Some 5, Some 6, Some 7], shape = [4], device = Some ''cpu'',
         dtype = Some ''float32''\<rparr> = Inl SameSize
   \<and> client_add ideal
        \<lparr>data = [Some 1, Some 2, Some 3], shape = [3], device = Some ''cpu'',
         dtype = Some ''float32''\<rparr>
        \<lparr>data = [Some 4, Some 5, Some 6, Some 7], shape = [4], device = Some ''cpu'',
         dtype = Some ''float32''\<rparr> = Inl ShapesMustMatch
   \<and> add_t ideal
        \<lparr>data = [Some 1, Some 2, Some 3], shape = [3], device = Some ''cpu'',
         dtype = Some ''float32''\<rparr>
        \<lparr>data = [Some 4, Some 5, Some 6], shape = [3], device = Some ''cpu'',
         dtype = Some ''float32''\<rparr>
       = Inr \<lparr>data = [Some 5, Some 7, Some 9], shape = [3], device = Some ''cpu'',
              dtype = Some ''float32''\<rparr>"
  using
    add_result [of ideal
        "\<lparr>data = [Some 1, Some 2, Some 3], shape = [3], device = Some ''cpu'',
         dtype = Some ''float32''\<rparr>"
        "\<lparr>data = [Some 4, Some 5, Some 6, Some 7], shape = [4], device = Some ''cpu'',
         dtype = Some ''float32''\<rparr>"]
    add_result [of ideal
        "\<lparr>data = [Some 1, Some 2, Some 3], shape = [3], device = Some ''cpu'',
         dtype = Some ''float32''\<rparr>"
        "\<lparr>data = [Some 4, Some 5, Some 6], shape = [3], device = Some ''cpu'',
         dtype = Some ''float32''\<rparr>"]
  by (simp add: wf_def product_def ideal_def upt_conv_Cons eval_nat_numeral)

section \<open>Zero-filled tensors\<close>

lemma zeros_eq:
  "zeros ops shp dev =
     (if product shp < 0 then Inl RangeError
      else Inr \<lparr>data = replicate (nat (product shp)) (num ops 0), shape = shp,
                device = Some (or_default dev ''cpu''), dtype = Some ''float32''\<rparr>)"
  by (simp add: zeros_def new_array_def zero_array_def)

lemma server_zeros_eq:
  "server_zeros ops shp dt dev =
     (if product shp < 0 then Inl RangeError
      else Inr \<lparr>data = replicate (nat (product shp)) (num ops 0), shape = shp,
                device = Some (case dev of None \<Rightarrow> ''cpu'' | Some v \<Rightarrow> v),
                dtype = Some (case dt of None \<Rightarrow> ''float32'' | Some v \<Rightarrow> v)\<rparr>)"
  by (simp add: server_zeros_def new_array_def zero_array_def ebind_def)

text \<open>
  C8 as the specification has it, refuted: a dimension that is zero or negative does not
  make \<^verbatim>\<open>zeros\<close> fail.  The shapes \<open>[0]\<close> and \<open>[2, 0]\<close> give an empty tensor and \<open>[-1, -2]\<close>
  gives a tensor of two elements.
\<close>

theorem zeros_counterexample:
  "zeros ideal [0] None
     = Inr \<lparr>data = [], shape = [0], device = Some ''cpu'', dtype = Some ''float32''\<rparr>
   \<and> zeros ideal [2, 0] None
     = Inr \<lparr>data = [], shape = [2, 0], device = Some ''cpu'', dtype = Some ''float32''\<rparr>
   \<and> zeros ideal [- 1, - 2] None
     = Inr \<lparr>data = [Some 0, Some 0], shape = [- 1, - 2], device = Some ''cpu'',
            dtype = Some ''float32''\<rparr>
   \<and> server_zeros ideal [0] (Some ''float32'') (Some ''cpu'')
     = Inr \<lparr>data = [], shape = [0], device = Some ''cpu'', dtype = Some ''float32''\<rparr>"
  by (simp add: zeros_eq server_zeros_eq product_def or_default_def ideal_def eval_nat_numeral)


text \<open>
  C8, amended.  \<^verbatim>\<open>zeros\<close> makes no check of the shape: it fails exactly when the
  typed-array constructor fails on the length \<open>product shape\<close>, and then with the error of
  the constructor, a \<^verbatim>\<open>RangeError\<close>; a negative product always makes it fail.  Whenever it
  returns, the product is not negative and the result is the tensor with the given shape
  and \<open>product shape\<close> elements, all zero.  Nothing is said on which lengths the
  constructor accepts beyond the rejection of the negative ones.
\<close>

theorem zeros_result:
  "(\<forall>e. zeros ops shp dev = Inl e \<longleftrightarrow> new_array ops (product shp) = Inl e)
   \<and> (\<forall>e. server_zeros ops shp dt dv = Inl e \<longleftrightarrow> new_array ops (product shp) = Inl e)
   \<and> (\<forall>e. zeros ops shp dev = Inl e \<or> server_zeros ops shp dt dv = Inl e \<longrightarrow> e = RangeError)
   \<and> (product shp < 0 \<longrightarrow>
        zeros ops shp dev = Inl RangeError \<and> server_zeros ops shp dt dv = Inl RangeError)
   \<and> (\<forall>t. zeros ops shp dev = Inr t \<longrightarrow>
          0 \<le> product shp
          \<and> t = \<lparr>data = replicate (nat (product shp)) (num ops 0), shape = shp,
                  device = Some (or_default dev ''cpu''), dtype = Some ''float32''\<rparr>)
   \<and> (\<forall>t. server_zeros ops shp dt dv = Inr t \<longrightarrow>
          0 \<le> product shp
          \<and> t = \<lparr>data = replicate (nat (product shp)) (num ops 0), shape = shp,
                  device = Some (case dv of None \<Rightarrow> ''cpu'' | Some v \<Rightarrow> v),
                  dtype = Some (case dt of None \<Rightarrow> ''float32'' | Some v \<Rightarrow> v)\<rparr>)"
proof (intro conjI allI impI)
  fix e
  show "zeros ops shp dev = Inl e \<longleftrightarrow> new_array ops (product shp) = Inl e"
    by (cases "new_array ops (product shp)") (simp_all add: zeros_def)
  show "server_zeros ops shp dt dv = Inl e \<longleftrightarrow> new_array ops (product shp) = Inl e"
    by (cases "new_array ops (product shp)") (simp_all add: server_zeros_def ebind_def)
next
  fix e
  assume "zeros ops shp dev = Inl e \<or> server_zeros ops shp dt dv = Inl e"
  then show "e = RangeError"
    by (auto simp: zeros_eq server_zeros_eq split: if_splits)
next
  assume "product shp < 0"
  then show "zeros ops shp dev = Inl RangeError" "server_zeros ops shp dt dv = Inl RangeError"
    by (simp_all add: zeros_eq server_zeros_eq)
next
  fix t
  assume "zeros ops shp dev = Inr t"
  then show "0 \<le> product shp"
    "t = \<lparr>data = replicate (nat (product shp)) (num ops 0), shape = shp,
          device = Some (or_default dev ''cpu''), dtype = Some ''float32''\<rparr>"
    by (auto simp: zeros_eq split: if_splits)
next
  fix t
  assume "server_zeros ops shp dt dv = Inr t"
  then show "0 \<le> product shp"
    "t = \<lparr>data = replicate (nat (product shp)) (num ops 0), shape = shp,
          device = Some (case dv of None \<Rightarrow> ''cpu'' | Some v \<Rightarrow> v),
          dtype = Some (case dt of None \<Rightarrow> ''float32'' | Some v \<Rightarrow> v)\<rparr>"
    by (auto simp: server_zeros_eq split: if_splits)
qed

theorem zeros_result_witness:
  "zeros ideal [2, 3] None
       = Inr \<lparr>data = [Some 0, Some 0, Some 0, Some 0, Some 0, Some 0], shape = [2, 3],
              device = Some ''cpu'', dtype = Some ''float32''\<rparr>
   \<and> product [- 1 :: int] < 0
   \<and> zeros ideal [- 1] None = Inl RangeError
   \<and> server_zeros ideal [- 1] None None = Inl RangeError"
proof -
  note a = zeros_result [of ideal "[2, 3]" None None None]
  note b = zeros_result [of ideal "[- 1]" None None None]
  have n: "new_array ideal (product [2, 3])
             = Inr [Some 0, Some 0, Some 0, Some 0, Some 0, Some 0]"
    by (simp add: new_array_def zero_array_def product_def ideal_def eval_nat_numeral)
  have "\<not> (\<exists>e. zeros ideal [2, 3] None = Inl e)"
    using a n by simp
  then obtain t where t: "zeros ideal [2, 3] None = Inr t"
    by (cases "zeros ideal [2, 3] None") auto
  with a have "t = \<lparr>data = replicate (nat (product [2, 3])) (num ideal 0), shape = [2, 3],
                  device = Some (or_default None ''cpu''), dtype = Some ''float32''\<rparr>"
    by blast
  then have 1: "zeros ideal [2, 3] None
       = Inr \<lparr>data = [Some 0, Some 0, Some 0, Some 0, Some 0, Some 0], shape = [2, 3],
              device = Some ''cpu'', dtype = Some ''float32''\<rparr>"
    using t by (simp add: product_def or_default_def ideal_def eval_nat_numeral)
  have p: "product [- 1 :: int] < 0" by (simp add: product_def)
  with b have 2: "zeros ideal [- 1] None = Inl RangeError"
    "server_zeros ideal [- 1] None None = Inl RangeError"
    by blast+
  from 1 p 2 show ?thesis by (intro conjI)
qed

section \<open>Reshaping\<close>

lemma prod_list_ge1: "\<forall>d \<in> set ds. 1 \<le> d \<Longrightarrow> 1 \<le> prod_list (ds :: int list)"
proof (induction ds)
  case Nil
  show ?case by simp
next
  case (Cons e es)
  then have "1 \<le> e" "1 \<le> prod_list es" by simp_all
  then have "1 * 1 \<le> e * prod_list es" by (intro mult_mono) simp_all
  then show ?case by simp
qed


lemma view_scan_eq:
  "0 \<le> i \<Longrightarrow> view_scan ds i nf k =
     (if (nf \<noteq> - 1 \<and> - 1 \<in> set ds) \<or> 2 \<le> count_list ds (- 1) then Inl OnlyOneDimInferred
      else Inr (if - 1 \<in> set ds then i + int (length (takeWhile (\<lambda>d. d \<noteq> - 1) ds)) else nf,
                fold (\<lambda>dim acc. dmul acc dim) (numbers (filter (\<lambda>d. d \<noteq> - 1) ds)) k))"
proof (induction ds arbitrary: i nf k)
  case Nil
  then show ?case by (simp add: numbers_def)
next
  case (Cons d ds)
  have c: "count_list ds (- 1 :: int) = 0 \<longleftrightarrow> - 1 \<notin> set ds" by (rule count_list_0_iff)
  show ?case
  proof (cases "d = - 1")
    case True
    show ?thesis
    proof (cases "nf \<noteq> - 1")
      case True
      with \<open>d = - 1\<close> show ?thesis by simp
    next
      case False
      have i: "i \<noteq> - 1" "0 \<le> i + 1" using Cons.prems by auto
      have "(1 \<le> count_list ds (- 1 :: int)) \<longleftrightarrow> - 1 \<in> set ds" using c by linarith
      moreover have "2 \<le> count_list ds (- 1 :: int) \<Longrightarrow> - 1 \<in> set ds" using c by linarith
      ultimately show ?thesis
        using True False i Cons.IH[OF i(2), of i k] by auto
    qed
  next
    case False
    have "0 \<le> i + 1" using Cons.prems by simp
    then show ?thesis
      using False Cons.IH[of "i + 1" nf "dmul k (Finite (of_int d))"] by (auto simp: numbers_def)
  qed
qed

lemma update_inferred:
  "- 1 \<in> set ds \<Longrightarrow> count_list ds (- 1) \<le> 1 \<Longrightarrow>
     (map f ds)[length (takeWhile (\<lambda>d. d \<noteq> - 1) ds) := v]
       = map (\<lambda>d. if d = (- 1 :: int) then v else f d) ds"
proof (induction ds)
  case Nil
  then show ?case by simp
next
  case (Cons d ds)
  show ?case
  proof (cases "d = - 1")
    case True
    then have "count_list ds (- 1 :: int) = 0" using Cons.prems(2) by simp
    then have "- 1 \<notin> set ds" by (simp add: count_list_0_iff)
    then have "map (\<lambda>d. if d = - 1 then v else f d) ds = map f ds"
      by (intro map_cong) auto
    then show ?thesis using True by simp
  next
    case False
    then show ?thesis using Cons by simp
  qed
qed


lemma view_eq:
  "view t newShape =
     (let n = count_list newShape (- 1);
          known = dprod (numbers (filter (\<lambda>d. d \<noteq> - 1) newShape));
          len = Finite (of_nat (length (data t)));
          resolved = map (\<lambda>d. if d = - 1 then ddiv len known else Finite (of_int d)) newShape
      in if 2 \<le> n then Inl OnlyOneDimInferred
         else if dprod resolved \<noteq> len then Inl CannotReshape
         else Inr \<lparr>data = data t, shape = resolved, device = device t, dtype = dtype t\<rparr>)"
proof -
  let ?n = "count_list newShape (- 1)"
  let ?known = "dprod (numbers (filter (\<lambda>d. d \<noteq> - 1) newShape))"
  let ?len = "Finite (of_nat (length (data t)))"
  let ?resolved = "map (\<lambda>d. if d = - 1 then ddiv ?len ?known else Finite (of_int d)) newShape"
  have scan: "view_scan newShape 0 (- 1) (Finite 1) =
      (if 2 \<le> ?n then Inl OnlyOneDimInferred
       else Inr (if - 1 \<in> set newShape then int (length (takeWhile (\<lambda>d. d \<noteq> - 1) newShape)) else - 1,
                 ?known))"
    by (simp add: view_scan_eq dprod_def)
  have c: "?n = 0 \<longleftrightarrow> - 1 \<notin> set newShape" by (rule count_list_0_iff)
  consider "2 \<le> ?n" | "?n = 1" | "?n = 0" by linarith
  then show ?thesis
  proof cases
    case 1
    then show ?thesis by (simp add: view_def scan ebind_def)
  next
    case 2
    then have m: "- 1 \<in> set newShape" using c by auto
    have r: "(numbers newShape)[length (takeWhile (\<lambda>d. d \<noteq> - 1) newShape) := ddiv ?len ?known]
               = ?resolved"
      unfolding numbers_def by (rule update_inferred[OF m]) (simp add: 2)
    show ?thesis
      using 2 m by (simp add: view_def scan ebind_def Let_def r)
  next
    case 3
    then have m: "- 1 \<notin> set newShape" using c by auto
    then have r: "?resolved = numbers newShape" unfolding numbers_def by (intro map_cong) auto
    show ?thesis
      using 3 m by (simp add: view_def scan ebind_def Let_def r)
  qed
qed

lemma reshape_eq:
  "reshape t newShape =
     (if dprod (numbers newShape) \<noteq> Finite (of_nat (length (data t))) then Inl CannotReshape
      else Inr \<lparr>data = data t, shape = newShape, device = device t, dtype = dtype t\<rparr>)"
  by (simp add: reshape_def)

lemma prod_list_inferred:
  "count_list ds (- 1) = 1 \<Longrightarrow>
     prod_list (map (\<lambda>d. if d = - 1 then q else d) ds)
       = q * prod_list (filter (\<lambda>d. d \<noteq> - 1) (ds :: int list))"
proof (induction ds)
  case Nil
  then show ?case by simp
next
  case (Cons d ds)
  show ?case
  proof (cases "d = - 1")
    case True
    then have "count_list ds (- 1 :: int) = 0" using Cons.prems by simp
    then have n: "- 1 \<notin> set ds" by (simp add: count_list_0_iff)
    then have "map (\<lambda>d. if d = - 1 then q else d) ds = ds" by (intro map_idI) auto
    moreover have "filter (\<lambda>d. d \<noteq> - 1) ds = ds" using n by (intro filter_True) auto
    ultimately show ?thesis using True by simp
  next
    case False
    then show ?thesis using Cons by simp
  qed
qed

text \<open>
  The case in which every number that \<^verbatim>\<open>view\<close> computes is an integer: one sentinel, the
  other entries positive, their product a divisor of the buffer length.
\<close>

lemma view_exact:
  assumes one: "count_list newShape (- 1) = 1"
    and pos: "\<forall>d \<in> set newShape. d = - 1 \<or> 1 \<le> d"
    and dv: "prod_list (filter (\<lambda>d. d \<noteq> - 1) newShape) dvd int (length (data t))"
    and len: "0 < length (data t)" "int (length (data t)) \<le> 2 ^ 53"
  shows "view t newShape
         = Inr \<lparr>data = data t,
                shape = numbers (map (\<lambda>d. if d = - 1
                          then int (length (data t)) div prod_list (filter (\<lambda>d. d \<noteq> - 1) newShape)
                          else d) newShape),
                device = device t, dtype = dtype t\<rparr>"
proof -
  define L where "L = int (length (data t))"
  define K where "K = prod_list (filter (\<lambda>d. d \<noteq> - 1) newShape)"
  define R where "R = map (\<lambda>d. if d = - 1 then L div K else d) newShape"
  have fpos: "\<forall>d \<in> set (filter (\<lambda>d. d \<noteq> - 1) newShape). 1 \<le> d" using pos by auto
  have K1: "1 \<le> K" unfolding K_def by (rule prod_list_ge1[OF fpos])
  have L0: "0 < L" using len(1) by (simp add: L_def)
  have KL: "K \<le> L" using dv L0 K1 unfolding K_def L_def by (intro zdvd_imp_le) simp_all
  have L53: "L \<le> 2 ^ 53" using len(2) by (simp add: L_def)
  have known: "dprod (numbers (filter (\<lambda>d. d \<noteq> - 1) newShape)) = Finite (of_int K)"
    unfolding K_def using fpos KL L53 K_def by (intro dprod_exact) simp_all
  have lenF: "Finite (of_nat (length (data t))) = Finite (of_int L)" by (simp add: L_def)
  have q: "ddiv (Finite (of_int L)) (Finite (of_int K)) = Finite (of_int (L div K))"
    using dv K1 L0 L53 unfolding K_def L_def by (intro ddiv_int) simp_all
  have q1: "1 \<le> L div K"
  proof -
    have "0 < L div K" using KL K1 pos_imp_zdiv_pos_iff[of K L] by simp
    then show ?thesis by simp
  qed
  have qq: "ddiv (Finite (of_nat (length (data t))))
                 (dprod (numbers (filter (\<lambda>d. d \<noteq> - 1) newShape)))
            = Finite (of_int (L div K))"
    unfolding known lenF q ..
  have res: "map (\<lambda>d. if d = - 1
                       then ddiv (Finite (of_nat (length (data t))))
                              (dprod (numbers (filter (\<lambda>d. d \<noteq> - 1) newShape)))
                       else Finite (of_int d)) newShape = numbers R"
    by (subst qq) (simp add: R_def numbers_def)
  have Rpos: "\<forall>d \<in> set R. 1 \<le> d" using pos q1 unfolding R_def by auto
  have "prod_list R = (L div K) * K"
    unfolding R_def K_def by (rule prod_list_inferred[OF one])
  also have "\<dots> = L" using dv unfolding K_def L_def by simp
  finally have pR: "prod_list R = L" .
  have "dprod (numbers R) = Finite (of_int (prod_list R))"
    using Rpos pR L53 by (intro dprod_exact) simp_all
  then have pr: "dprod (numbers R) = Finite (of_nat (length (data t)))"
    unfolding pR lenF .
  have "view t newShape
          = Inr \<lparr>data = data t, shape = numbers R, device = device t, dtype = dtype t\<rparr>"
    unfolding view_eq Let_def res pr using one by simp
  then show ?thesis unfolding R_def L_def K_def .
qed

lemma dbl_numeral: "(numeral w :: int) \<le> 2 ^ 53 \<Longrightarrow> dbl (numeral w) = Finite (numeral w)"
  using dbl_int[of "numeral w"] by simp

lemma dbl_neg_numeral: "(numeral w :: int) \<le> 2 ^ 53 \<Longrightarrow> dbl (- numeral w) = Finite (- numeral w)"
  using dbl_int[of "- numeral w"] by simp

lemma dbl_one: "dbl 1 = Finite 1"
  using dbl_int[of 1] by simp

lemma dbl_neg_one: "dbl (- 1) = Finite (- 1)"
  using dbl_int[of "- 1"] by simp

lemma dbl_zero: "dbl 0 = Finite 0"
  using dbl_int[of 0] by simp

lemmas dbl_simps = dbl_numeral dbl_neg_numeral dbl_one dbl_neg_one dbl_zero

text \<open>The quotient \<open>1 / 49\<close> and its product with \<open>49\<close>, which is not \<open>1\<close>.\<close>

lemma dbl_49th: "dbl (1 / 49) = Finite (5882252574524729 / 2 ^ 58)"
  using fround_eval[of "- 6" "1 / 49" 53 "- 1074"]
    round_even_eval[of 5882252574524729 "2 ^ 58 / 49"]
  by (simp add: dbl_def binary64_def rounded_def powr_minus)

lemma dbl_49_times: "dbl (49 * (5882252574524729 / 2 ^ 58)) = Finite (9007199254740991 / 2 ^ 53)"
  using fround_eval[of "- 1" "49 * (5882252574524729 / 2 ^ 58)" 53 "- 1074"]
    round_even_eval[of 9007199254740991 "49 * 5882252574524729 / 2 ^ 5"]
  by (simp add: dbl_def binary64_def rounded_def powr_minus)

lemma dbl_3_halves: "dbl (3 / 2) = Finite (3 / 2)"
  using fround_eval[of 0 "3 / 2" 53 "- 1074"]
    round_even_eval[of "3 * 2 ^ 51" "3 * 2 ^ 51"]
  by (simp add: dbl_def binary64_def rounded_def powr_minus)

text \<open>
  C5 as the specification has it, refuted: \<^verbatim>\<open>reshape\<close> of the server and of the client has
  no sentinel.  With the new shape \<open>[-1, -1]\<close> on a buffer of one element it does not fail
  although two entries are \<open>-1\<close>: their product is \<open>1\<close>, and the shape of the result is
  \<open>[-1, -1]\<close>.  With the new shape \<open>[2, -1]\<close> on a buffer of six elements it does not
  resolve the entry \<open>-1\<close> to \<open>3\<close>: the product is \<open>-2\<close>, and it fails.
\<close>

theorem reshape_counterexample:
  "reshape \<lparr>data = [Some (0 :: real)], shape = [1], device = Some ''cpu'', dtype = Some ''float32''\<rparr>
       [- 1, - 1]
     = Inr \<lparr>data = [Some 0], shape = [- 1, - 1], device = Some ''cpu'', dtype = Some ''float32''\<rparr>
   \<and> reshape \<lparr>data = [Some 0, Some 1, Some 2, Some 3, Some 4, Some (5 :: real)], shape = [6],
              device = Some ''cpu'', dtype = Some ''float32''\<rparr> [2, - 1]
     = Inl CannotReshape"
  by (simp add: reshape_def dprod_def numbers_def dbl_simps)

text \<open>
  C5, amended.  \<^verbatim>\<open>view\<close>, the reshape of the streaming transformer module, fails when two
  or more entries of the new shape are the sentinel \<open>-1\<close>.  When it returns, at most one
  entry was the sentinel, the result has the buffer of the input, the sentinel is resolved
  to the quotient of the buffer length by the product of the other entries, and the
  product of the resolved shape is the buffer length; with at most one sentinel it returns
  exactly when that product is the buffer length, and fails otherwise.  Quotient and
  products are those of the double arithmetic of the language.  They are the integer
  quotient and the integer products, and \<^verbatim>\<open>view\<close> returns, when there is one sentinel, the
  other entries are positive integers whose product divides the length of a buffer that
  is not empty (and holds at most \<open>2 ^ 53\<close> elements).  \<^verbatim>\<open>reshape\<close> of the server and of the
  client has no sentinel: it takes every entry as a factor, \<open>-1\<close> included, fails exactly
  when the product of the new shape differs from the buffer length, and otherwise returns
  the new shape as it is; the product is the integer product when the entries are
  positive integers and it does not exceed \<open>2 ^ 53\<close>.
\<close>

theorem view_infers_one_dimension:
  "(2 \<le> count_list newShape (- 1) \<longrightarrow> view t newShape = Inl OnlyOneDimInferred)
   \<and> (\<forall>r. view t newShape = Inr r \<longrightarrow>
          count_list newShape (- 1) \<le> 1 \<and> data r = data t
          \<and> device r = device t \<and> dtype r = dtype t
          \<and> shape r = map (\<lambda>d. if d = - 1
                 then ddiv (Finite (of_nat (length (data t))))
                        (dprod (numbers (filter (\<lambda>d. d \<noteq> - 1) newShape)))
                 else Finite (of_int d)) newShape
          \<and> dprod (shape r) = Finite (of_nat (length (data t))))
   \<and> (count_list newShape (- 1) \<le> 1 \<longrightarrow>
        view t newShape =
          (if dprod (map (\<lambda>d. if d = - 1
                 then ddiv (Finite (of_nat (length (data t))))
                        (dprod (numbers (filter (\<lambda>d. d \<noteq> - 1) newShape)))
                 else Finite (of_int d)) newShape) \<noteq> Finite (of_nat (length (data t)))
           then Inl CannotReshape
           else Inr \<lparr>data = data t,
                     shape = map (\<lambda>d. if d = - 1
                       then ddiv (Finite (of_nat (length (data t))))
                              (dprod (numbers (filter (\<lambda>d. d \<noteq> - 1) newShape)))
                       else Finite (of_int d)) newShape,
                     device = device t, dtype = dtype t\<rparr>))
   \<and> (count_list newShape (- 1) = 1 \<and> (\<forall>d \<in> set newShape. d = - 1 \<or> 1 \<le> d)
        \<and> prod_list (filter (\<lambda>d. d \<noteq> - 1) newShape) dvd int (length (data t))
        \<and> 0 < length (data t) \<and> int (length (data t)) \<le> 2 ^ 53 \<longrightarrow>
        view t newShape
          = Inr \<lparr>data = data t,
                 shape = numbers (map (\<lambda>d. if d = - 1
                           then int (length (data t)) div prod_list (filter (\<lambda>d. d \<noteq> - 1) newShape)
                           else d) newShape),
                 device = device t, dtype = dtype t\<rparr>)
   \<and> reshape u newShape =
        (if dprod (numbers newShape) \<noteq> Finite (of_nat (length (data u))) then Inl CannotReshape
         else Inr \<lparr>data = data u, shape = newShape, device = device u, dtype = dtype u\<rparr>)
   \<and> ((\<forall>d \<in> set newShape. 1 \<le> d) \<and> prod_list newShape \<le> 2 ^ 53 \<longrightarrow>
        dprod (numbers newShape) = Finite (of_int (prod_list newShape)))"
proof -
  let ?resolved = "map (\<lambda>d. if d = - 1
                 then ddiv (Finite (of_nat (length (data t))))
                        (dprod (numbers (filter (\<lambda>d. d \<noteq> - 1) newShape)))
                 else Finite (of_int d)) newShape"
  note v = view_eq[of t newShape, unfolded Let_def]
  have 1: "2 \<le> count_list newShape (- 1) \<longrightarrow> view t newShape = Inl OnlyOneDimInferred"
    unfolding v by simp
  have 2: "\<forall>r. view t newShape = Inr r \<longrightarrow>
          count_list newShape (- 1) \<le> 1 \<and> data r = data t
          \<and> device r = device t \<and> dtype r = dtype t \<and> shape r = ?resolved
          \<and> dprod (shape r) = Finite (of_nat (length (data t)))"
    unfolding v by (auto split: if_splits)
  have 3: "count_list newShape (- 1) \<le> 1 \<longrightarrow>
        view t newShape =
          (if dprod ?resolved \<noteq> Finite (of_nat (length (data t))) then Inl CannotReshape
           else Inr \<lparr>data = data t, shape = ?resolved, device = device t, dtype = dtype t\<rparr>)"
    unfolding v by simp
  have 4: "count_list newShape (- 1) = 1 \<and> (\<forall>d \<in> set newShape. d = - 1 \<or> 1 \<le> d)
        \<and> prod_list (filter (\<lambda>d. d \<noteq> - 1) newShape) dvd int (length (data t))
        \<and> 0 < length (data t) \<and> int (length (data t)) \<le> 2 ^ 53 \<longrightarrow>
        view t newShape
          = Inr \<lparr>data = data t,
                 shape = numbers (map (\<lambda>d. if d = - 1
                           then int (length (data t)) div prod_list (filter (\<lambda>d. d \<noteq> - 1) newShape)
                           else d) newShape),
                 device = device t, dtype = dtype t\<rparr>"
    using view_exact[of newShape t] by blast
  have 5: "reshape u newShape =
        (if dprod (numbers newShape) \<noteq> Finite (of_nat (length (data u))) then Inl CannotReshape
         else Inr \<lparr>data = data u, shape = newShape, device = device u, dtype = dtype u\<rparr>)"
    by (rule reshape_eq)
  have 6: "(\<forall>d \<in> set newShape. 1 \<le> d) \<and> prod_list newShape \<le> 2 ^ 53 \<longrightarrow>
        dprod (numbers newShape) = Finite (of_int (prod_list newShape))"
    using dprod_exact[of newShape] by blast
  from 1 2 3 4 5 6 show ?thesis by (intro conjI)
qed

theorem view_infers_one_dimension_witness:
  "view \<lparr>data = [Some 0, Some 1, Some 2, Some 3, Some 4, Some (5 :: real)], shape = [6 :: int],
          device = Some ''cpu'', dtype = Some ''float32''\<rparr> [- 1, - 1] = Inl OnlyOneDimInferred
   \<and> view \<lparr>data = [Some 0, Some 1, Some 2, Some 3, Some 4, Some (5 :: real)], shape = [6 :: int],
          device = Some ''cpu'', dtype = Some ''float32''\<rparr> [2, - 1]
       = Inr \<lparr>data = [Some 0, Some 1, Some 2, Some 3, Some 4, Some 5], shape = [Finite 2, Finite 3],
              device = Some ''cpu'', dtype = Some ''float32''\<rparr>
   \<and> view \<lparr>data = [Some 0, Some 1, Some 2, Some 3, Some 4, Some (5 :: real)], shape = [6 :: int],
          device = Some ''cpu'', dtype = Some ''float32''\<rparr> [4, - 1]
       = Inr \<lparr>data = [Some 0, Some 1, Some 2, Some 3, Some 4, Some 5],
              shape = [Finite 4, Finite (3 / 2)],
              device = Some ''cpu'', dtype = Some ''float32''\<rparr>
   \<and> view \<lparr>data = [Some (0 :: real)], shape = [1 :: int], device = Some ''cpu'',
            dtype = Some ''float32''\<rparr> [49, - 1] = Inl CannotReshape
   \<and> view \<lparr>data = [Some 0, Some 1, Some 2, Some 3, Some 4, Some (5 :: real)], shape = [6 :: int],
          device = Some ''cpu'', dtype = Some ''float32''\<rparr> [2, 2] = Inl CannotReshape
   \<and> reshape \<lparr>data = [Some 0, Some 1, Some 2, Some 3, Some 4, Some (5 :: real)], shape = [6 :: int],
          device = Some ''cpu'', dtype = Some ''float32''\<rparr> [2, 3]
       = Inr \<lparr>data = [Some 0, Some 1, Some 2, Some 3, Some 4, Some 5], shape = [2, 3],
              device = Some ''cpu'', dtype = Some ''float32''\<rparr>"
proof -
  let ?t = "\<lparr>data = [Some 0, Some 1, Some 2, Some 3, Some 4, Some (5 :: real)], shape = [6 :: int],
          device = Some ''cpu'', dtype = Some ''float32''\<rparr>"
  let ?t1 = "\<lparr>data = [Some (0 :: real)], shape = [1 :: int], device = Some ''cpu'',
            dtype = Some ''float32''\<rparr>"
  have 1: "view ?t [- 1, - 1] = Inl OnlyOneDimInferred"
    by (rule view_infers_one_dimension [of "[- 1, - 1]" ?t ?t, THEN conjunct1, THEN mp]) simp
  have "view ?t [2, - 1]
       = Inr \<lparr>data = data ?t,
              shape = numbers (map (\<lambda>d. if d = - 1
                           then int (length (data ?t)) div prod_list (filter (\<lambda>d. d \<noteq> - 1) [2, - 1])
                           else d) [2, - 1]),
              device = device ?t, dtype = dtype ?t\<rparr>"
    by (rule view_infers_one_dimension [of "[2, - 1]" ?t ?t, THEN conjunct2, THEN conjunct2,
          THEN conjunct2, THEN conjunct1, THEN mp]) simp
  then have 2: "view ?t [2, - 1]
       = Inr \<lparr>data = [Some 0, Some 1, Some 2, Some 3, Some 4, Some 5], shape = [Finite 2, Finite 3],
              device = Some ''cpu'', dtype = Some ''float32''\<rparr>"
    by (simp add: numbers_def)
  note c3 = view_infers_one_dimension [THEN conjunct2, THEN conjunct2, THEN conjunct1, THEN mp]
  have 3: "view ?t [4, - 1]
       = Inr \<lparr>data = [Some 0, Some 1, Some 2, Some 3, Some 4, Some 5],
              shape = [Finite 4, Finite (3 / 2)],
              device = Some ''cpu'', dtype = Some ''float32''\<rparr>"
    by (subst c3 [of "[4, - 1]" ?t])
       (simp_all add: numbers_def dprod_def dbl_simps dbl_3_halves)
  have 4: "view ?t1 [49, - 1] = Inl CannotReshape"
    by (subst c3 [of "[49, - 1]" ?t1])
       (simp_all add: numbers_def dprod_def dbl_simps dbl_49th dbl_49_times [simplified])
  have 5: "view ?t [2, 2] = Inl CannotReshape"
    by (subst c3 [of "[2, 2]" ?t])
       (simp_all add: numbers_def dprod_def dbl_simps)
  have 6: "reshape ?t [2, 3]
       = Inr \<lparr>data = [Some 0, Some 1, Some 2, Some 3, Some 4, Some 5], shape = [2, 3],
              device = Some ''cpu'', dtype = Some ''float32''\<rparr>"
    by (subst view_infers_one_dimension [of "[2, 3]" ?t ?t, THEN conjunct2, THEN conjunct2,
          THEN conjunct2, THEN conjunct2, THEN conjunct1])
       (simp add: numbers_def dprod_def dbl_simps)
  from 1 2 3 4 5 6 show ?thesis by (intro conjI)
qed

section \<open>The sinusoidal embedding\<close>

lemma set_evens [simp]: "set (evens n) = {d. 0 \<le> d \<and> d < n \<and> even d}"
proof -
  have 1: "d \<in> (\<lambda>k. 2 * int k) ` {0..<nat ((n + 1) div 2)}" if d: "0 \<le> d" "d < n" "even d" for d
  proof -
    obtain k where k: "d = 2 * k" using d(3) by (elim evenE)
    have "0 \<le> k" "k < (n + 1) div 2" using d(1,2) k by simp_all
    then have "nat k \<in> {0..<nat ((n + 1) div 2)}" by simp
    moreover have "d = 2 * int (nat k)" using \<open>0 \<le> k\<close> k by simp
    ultimately show ?thesis by (rule rev_image_eqI)
  qed
  have 2: "0 \<le> d \<and> d < n \<and> even d" if "d \<in> (\<lambda>k. 2 * int k) ` {0..<nat ((n + 1) div 2)}" for d
  proof -
    from that obtain k where k: "d = 2 * int k" "k < nat ((n + 1) div 2)" by auto
    then have "int k < (n + 1) div 2" by simp
    then show ?thesis using k(1) by simp
  qed
  have "set (evens n) = (\<lambda>k. 2 * int k) ` {0..<nat ((n + 1) div 2)}"
    by (simp add: evens_def)
  also have "\<dots> = {d. 0 \<le> d \<and> d < n \<and> even d}"
  proof (intro equalityI subsetI)
    fix d assume "d \<in> (\<lambda>k. 2 * int k) ` {0..<nat ((n + 1) div 2)}"
    then show "d \<in> {d. 0 \<le> d \<and> d < n \<and> even d}" using 2[of d] by simp
  next
    fix d assume "d \<in> {d. 0 \<le> d \<and> d < n \<and> even d}"
    then show "d \<in> (\<lambda>k. 2 * int k) ` {0..<nat ((n + 1) div 2)}" using 1[of d] by simp
  qed
  finally show ?thesis .
qed

lemma for2_writes:
  "for_upto B (\<lambda>b. for_upto T (\<lambda>t xs. ta_set xs (f b t) (g b t)))
   = writes (concat (map (\<lambda>b. concat (map (\<lambda>t. [(f b t, g b t)]) (indices T))) (indices B)))"
proof -
  have 1: "(\<lambda>t xs. ta_set xs (f b t) (g b t)) = (\<lambda>t. writes [(f b t, g b t)])" for b
    by (intro ext) simp
  show ?thesis
    by (simp only: 1 for_upto_writes)
qed

lemma for2_length [simp]:
  "length (for_upto B (\<lambda>b. for_upto T (\<lambda>t xs. ta_set xs (f b t) (g b t))) xs) = length xs"
  by (simp only: for2_writes length_writes)

lemma for2_nth:
  fixes B T :: int
  assumes rng: "0 \<le> b" "b < B" "0 \<le> t" "t < T"
    and len: "int (length xs) = B * T"
  shows "for_upto B (\<lambda>b. for_upto T (\<lambda>t xs. ta_set xs (b * T + t) (g b t))) xs ! nat (b * T + t)
         = g b t"
proof -
  let ?ws = "concat (map (\<lambda>b. concat (map (\<lambda>t. [(b * T + t, g b t)]) (indices T))) (indices B))"
  have mem: "(i, v) \<in> set ?ws \<longleftrightarrow>
      (\<exists>b' t'. 0 \<le> b' \<and> b' < B \<and> 0 \<le> t' \<and> t' < T \<and> i = b' * T + t' \<and> v = g b' t')" for i v
    by auto
  have "(b * T + t, g b t) \<in> set ?ws" unfolding mem using rng by blast
  moreover have "\<forall>w. (b * T + t, w) \<in> set ?ws \<longrightarrow> w = g b t"
  proof (intro allI impI)
    fix w assume "(b * T + t, w) \<in> set ?ws"
    then obtain b' t' where r: "0 \<le> t'" "t' < T" "b * T + t = b' * T + t'" "w = g b' t'"
      unfolding mem by blast
    have "b = b' \<and> t = t'" using idx2_inj[OF r(3) rng(3,4) r(1,2)] .
    then show "w = g b t" using r(4) by simp
  qed
  moreover have "0 \<le> b * T + t" using rng by simp
  moreover have "b * T + t < int (length xs)"
    using idx3_bound(2)[of 0 1 b B t T] rng len by simp
  ultimately have "writes ?ws xs ! nat (b * T + t) = g b t" by (rule writes_nth)
  then show ?thesis by (simp only: for2_writes)
qed

lemma sin_loops_writes:
  "for_upto B (\<lambda>b. for_upto S (\<lambda>t. for_step2 D (\<lambda>d e.
       if d + 1 < D
       then ta_set (ta_set e (f b t + d) (sv b t d)) (f b t + d + 1) (cv b t d)
       else ta_set e (f b t + d) (sv b t d))))
   = writes (concat (map (\<lambda>b. concat (map (\<lambda>t. concat (map (\<lambda>d.
        (f b t + d, sv b t d) # (if d + 1 < D then [(f b t + d + 1, cv b t d)] else []))
        (evens D))) (indices S))) (indices B)))"
proof -
  have 1: "(\<lambda>d e. if d + 1 < D
       then ta_set (ta_set e (f b t + d) (sv b t d)) (f b t + d + 1) (cv b t d)
       else ta_set e (f b t + d) (sv b t d))
     = (\<lambda>d. writes ((f b t + d, sv b t d) # (if d + 1 < D then [(f b t + d + 1, cv b t d)] else [])))"
    for b t
    by (intro ext) (simp add: writes_def)
  show ?thesis
    by (simp only: 1 for_upto_writes for_step2_writes)
qed

lemma sin_loops_length [simp]:
  "length (for_upto B (\<lambda>b. for_upto S (\<lambda>t. for_step2 D (\<lambda>d e.
       if d + 1 < D
       then ta_set (ta_set e (f b t + d) (sv b t d)) (f b t + d + 1) (cv b t d)
       else ta_set e (f b t + d) (sv b t d)))) xs) = length xs"
  by (simp only: sin_loops_writes length_writes)

lemma sin_loops_nth:
  fixes B S D :: int
  assumes rng: "0 \<le> b" "b < B" "0 \<le> t" "t < S" "0 \<le> j" "j < D"
    and len: "int (length xs) = B * S * D"
  shows "for_upto B (\<lambda>b. for_upto S (\<lambda>t. for_step2 D (\<lambda>d e.
       if d + 1 < D
       then ta_set (ta_set e (b * S * D + t * D + d) (sv b t d)) (b * S * D + t * D + d + 1) (cv b t d)
       else ta_set e (b * S * D + t * D + d) (sv b t d)))) xs ! nat (b * S * D + t * D + j)
     = (if even j then sv b t j else cv b t (j - 1))"
proof -
  let ?f = "\<lambda>b t. b * S * D + t * D"
  let ?ws = "concat (map (\<lambda>b. concat (map (\<lambda>t. concat (map (\<lambda>d.
        (?f b t + d, sv b t d) # (if d + 1 < D then [(?f b t + d + 1, cv b t d)] else []))
        (evens D))) (indices S))) (indices B))"
  let ?v = "if even j then sv b t j else cv b t (j - 1)"
  have mem: "(i, v) \<in> set ?ws \<longleftrightarrow>
      (\<exists>b' t' d. 0 \<le> b' \<and> b' < B \<and> 0 \<le> t' \<and> t' < S \<and> 0 \<le> d \<and> d < D \<and> even d
         \<and> ((i = ?f b' t' + d \<and> v = sv b' t' d)
            \<or> (d + 1 < D \<and> i = ?f b' t' + d + 1 \<and> v = cv b' t' d)))" for i v
    by (auto split: if_splits)
  have in_ws: "(?f b t + j, ?v) \<in> set ?ws"
  proof (cases "even j")
    case True
    then show ?thesis unfolding mem using rng by auto
  next
    case False
    then have "j \<noteq> 0" by auto
    with False have "even (j - 1)" "0 \<le> j - 1" "j - 1 < D" "j - 1 + 1 < D" using rng by auto
    moreover have "?f b t + j = ?f b t + (j - 1) + 1" by simp
    ultimately show ?thesis unfolding mem using rng False by metis
  qed
  have uniq: "\<forall>w. (?f b t + j, w) \<in> set ?ws \<longrightarrow> w = ?v"
  proof (intro allI impI)
    fix w assume "(?f b t + j, w) \<in> set ?ws"
    then obtain b' t' d where r: "0 \<le> b'" "b' < B" "0 \<le> t'" "t' < S" "0 \<le> d" "d < D" "even d"
      and c: "(?f b t + j = ?f b' t' + d \<and> w = sv b' t' d)
            \<or> (d + 1 < D \<and> ?f b t + j = ?f b' t' + d + 1 \<and> w = cv b' t' d)"
      unfolding mem by blast
    from c show "w = ?v"
    proof
      assume a: "?f b t + j = ?f b' t' + d \<and> w = sv b' t' d"
      then have "b = b' \<and> t = t' \<and> j = d"
        using idx3_inj[of b S D t j b' t' d] rng r by simp
      then show ?thesis using a r by simp
    next
      assume a: "d + 1 < D \<and> ?f b t + j = ?f b' t' + d + 1 \<and> w = cv b' t' d"
      then have "b * S * D + t * D + j = b' * S * D + t' * D + (d + 1)" by simp
      then have "b = b' \<and> t = t' \<and> j = d + 1"
        using idx3_inj[of b S D t j b' t' "d + 1"] rng r a by simp
      then show ?thesis using a r by simp
    qed
  qed
  have "0 \<le> ?f b t + j" "?f b t + j < int (length xs)"
    using idx3_bound[of b B t S j D] rng len by simp_all
  with in_ws uniq have "writes ?ws xs ! nat (?f b t + j) = ?v" by (rule writes_nth)
  then show ?thesis by (simp only: sin_loops_writes)
qed

lemma createSinEmbedding_eq:
  assumes "shape positions = B # T # rest" "0 \<le> B * T * D"
  shows "createSinEmbedding ops positions D mp =
    Inr \<lparr>data = for_upto B (\<lambda>b. for_upto T (\<lambda>t. for_step2 D (\<lambda>d e.
             if d + 1 < D
             then ta_set (ta_set e (b * T * D + t * D + d)
                    (f32 ops (fsin ops (fdiv ops (ta_get ops (data positions) (b * T + t))
                       (fpow ops mp (fdiv ops (num ops d) (num ops D)))))))
                    (b * T * D + t * D + d + 1)
                    (f32 ops (fcos ops (fdiv ops (ta_get ops (data positions) (b * T + t))
                       (fpow ops mp (fdiv ops (num ops d) (num ops D))))))
             else ta_set e (b * T * D + t * D + d)
                    (f32 ops (fsin ops (fdiv ops (ta_get ops (data positions) (b * T + t))
                       (fpow ops mp (fdiv ops (num ops d) (num ops D)))))))))
            (zero_array ops (nat (B * T * D))),
          shape = [B, T, D], device = Some ''cpu'', dtype = Some ''float32''\<rparr>"
  using assms
  by (simp add: createSinEmbedding_def zeros_def new_array_def ebind_def or_default_def Let_def)

lemma evens_numeral_simps:
  "evens 0 = []" "evens 1 = [0]" "evens 2 = [0]" "evens 3 = [0, 2]" "evens 4 = [0, 2]"
  by (simp_all add: evens_def upt_conv_Cons eval_nat_numeral)

lemma sin_one_pos: "0 < sin (1 :: real)"
  by (rule sin_gt_zero_02) simp_all

lemma cos_one_pos: "0 < cos (1 :: real)"
proof -
  have "0 \<le> sin (1 / 2 :: real)" using sin_gt_zero_02[of "1 / 2"] by simp
  moreover have "sin (1 / 2 :: real) \<le> 1 / 2" by (rule sin_x_le_x) simp
  ultimately have "(sin (1 / 2 :: real))\<^sup>2 \<le> (1 / 2)\<^sup>2" by (intro power_mono) auto
  then have "1 - 2 * (sin (1 / 2 :: real))\<^sup>2 \<ge> 1 / 2" by (simp add: power2_eq_square)
  moreover have "cos (1 :: real) = 1 - 2 * (sin (1 / 2))\<^sup>2"
    using cos_double_sin[of "1 / 2 :: real"] by simp
  ultimately show ?thesis by simp
qed

text \<open>
  C3 as the specification has it, refuted: with the odd width \<open>3\<close>, the position \<open>1\<close> and
  the period \<open>1\<close>, the embedding is \<open>[sin 1, cos 1, sin 1]\<close>.  The last odd slot, index
  \<open>1\<close>, holds a cosine and the last slot, index \<open>2\<close>, holds a sine; neither is zero.
\<close>

theorem createSinEmbedding_counterexample:
  "createSinEmbedding ideal
      \<lparr>data = [Some 1], shape = [1, 1], device = Some ''cpu'', dtype = Some ''float32''\<rparr>
      3 (Some 1)
     = Inr \<lparr>data = [Some (sin 1), Some (cos 1), Some (sin 1)], shape = [1, 1, 3],
            device = Some ''cpu'', dtype = Some ''float32''\<rparr>
   \<and> sin (1 :: real) \<noteq> 0 \<and> cos (1 :: real) \<noteq> 0"
proof -
  have "createSinEmbedding ideal
      \<lparr>data = [Some 1], shape = [1, 1], device = Some ''cpu'', dtype = Some ''float32''\<rparr>
      3 (Some 1)
     = Inr \<lparr>data = [Some (sin 1), Some (cos 1), Some (sin 1)], shape = [1, 1, 3],
            device = Some ''cpu'', dtype = Some ''float32''\<rparr>"
    by (simp add: createSinEmbedding_def zeros_def new_array_def zero_array_def ebind_def
        or_default_def product_def for_upto_def for_step2_def indices_numeral_simps
        evens_numeral_simps ta_set_def ta_get_def ideal_def eval_nat_numeral)
  then show ?thesis using sin_one_pos cos_one_pos by simp
qed

text \<open>
  C3, amended.  For a position tensor of shape \<open>[B, T]\<close> and a width \<open>D\<close>, none negative,
  the generator returns a tensor of shape \<open>[B, T, D]\<close> in which, for each position \<open>p\<close>
  and each even index \<open>d < D\<close>, element \<open>d\<close> is \<open>sin (p / maxPeriod ^ (d / D))\<close> and, when
  \<open>d + 1 < D\<close>, element \<open>d + 1\<close> is \<open>cos (p / maxPeriod ^ (d / D))\<close>, each computed with the
  operations of the arithmetic and then stored.  Every slot is covered: when \<open>D\<close> is odd
  the last slot is the even index \<open>D - 1\<close> and holds its sine.
\<close>

theorem createSinEmbedding_layout:
  assumes "shape positions = [B, T]" and "0 \<le> B" and "0 \<le> T" and "0 \<le> D"
  shows "\<exists>e. createSinEmbedding ops positions D mp = Inr e
           \<and> shape e = [B, T, D] \<and> int (length (data e)) = B * T * D
           \<and> (\<forall>b t d. 0 \<le> b \<and> b < B \<and> 0 \<le> t \<and> t < T \<and> 0 \<le> d \<and> d < D \<and> even d \<longrightarrow>
                 data e ! nat (b * T * D + t * D + d)
                   = f32 ops (fsin ops (fdiv ops (ta_get ops (data positions) (b * T + t))
                       (fpow ops mp (fdiv ops (num ops d) (num ops D)))))
                 \<and> (d + 1 < D \<longrightarrow>
                      data e ! nat (b * T * D + t * D + d + 1)
                        = f32 ops (fcos ops (fdiv ops (ta_get ops (data positions) (b * T + t))
                            (fpow ops mp (fdiv ops (num ops d) (num ops D)))))))"
proof -
  let ?sv = "\<lambda>b t d. f32 ops (fsin ops (fdiv ops (ta_get ops (data positions) (b * T + t))
                       (fpow ops mp (fdiv ops (num ops d) (num ops D)))))"
  let ?cv = "\<lambda>b t d. f32 ops (fcos ops (fdiv ops (ta_get ops (data positions) (b * T + t))
                       (fpow ops mp (fdiv ops (num ops d) (num ops D)))))"
  let ?d = "for_upto B (\<lambda>b. for_upto T (\<lambda>t. for_step2 D (\<lambda>d e.
             if d + 1 < D
             then ta_set (ta_set e (b * T * D + t * D + d) (?sv b t d))
                    (b * T * D + t * D + d + 1) (?cv b t d)
             else ta_set e (b * T * D + t * D + d) (?sv b t d))))
            (zero_array ops (nat (B * T * D)))"
  let ?e = "\<lparr>data = ?d, shape = [B, T, D], device = Some ''cpu'', dtype = Some ''float32''\<rparr>"
  have nn: "0 \<le> B * T * D" using assms(2-4) by simp
  have 1: "createSinEmbedding ops positions D mp = Inr ?e"
    by (rule createSinEmbedding_eq[OF assms(1) nn])
  have len: "int (length ?d) = B * T * D"
    using nn by (simp only: sin_loops_length length_zero_array)
  have nth: "?d ! nat (b * T * D + t * D + j) = (if even j then ?sv b t j else ?cv b t (j - 1))"
    if "0 \<le> b" "b < B" "0 \<le> t" "t < T" "0 \<le> j" "j < D" for b t j
    by (rule sin_loops_nth[OF that]) (simp add: nn)
  have 2: "data ?e ! nat (b * T * D + t * D + d) = ?sv b t d
           \<and> (d + 1 < D \<longrightarrow> data ?e ! nat (b * T * D + t * D + d + 1) = ?cv b t d)"
    if r: "0 \<le> b \<and> b < B \<and> 0 \<le> t \<and> t < T \<and> 0 \<le> d \<and> d < D \<and> even d" for b t d
  proof
    show "data ?e ! nat (b * T * D + t * D + d) = ?sv b t d"
      using nth[of b t d] r by simp
    show "d + 1 < D \<longrightarrow> data ?e ! nat (b * T * D + t * D + d + 1) = ?cv b t d"
    proof
      assume "d + 1 < D"
      then have "?d ! nat (b * T * D + t * D + (d + 1)) = ?cv b t (d + 1 - 1)"
        using nth[of b t "d + 1"] r by simp
      then show "data ?e ! nat (b * T * D + t * D + d + 1) = ?cv b t d"
        by (simp add: add.assoc)
    qed
  qed
  have 3: "shape ?e = [B, T, D]" "int (length (data ?e)) = B * T * D"
    using len by simp_all
  show ?thesis
    using 1 2 3 by blast
qed

theorem createSinEmbedding_layout_witness:
  "shape \<lparr>data = [Some 1, Some (2 :: real)], shape = [1, 2 :: int], device = Some ''cpu'',
          dtype = Some ''float32''\<rparr> = [1, 2]
   \<and> (0 :: int) \<le> 1 \<and> (0 :: int) \<le> 2 \<and> (0 :: int) \<le> 2
   \<and> createSinEmbedding ideal
        \<lparr>data = [Some 1, Some 2], shape = [1, 2], device = Some ''cpu'', dtype = Some ''float32''\<rparr>
        2 (Some 10000)
       = Inr \<lparr>data = [Some (sin 1), Some (cos 1), Some (sin 2), Some (cos 2)], shape = [1, 2, 2],
              device = Some ''cpu'', dtype = Some ''float32''\<rparr>"
proof -
  let ?p = "\<lparr>data = [Some 1, Some (2 :: real)], shape = [1, 2 :: int], device = Some ''cpu'',
          dtype = Some ''float32''\<rparr>"
  have s: "shape ?p = [1, 2]" by simp
  from createSinEmbedding_layout [OF s, of 2 ideal "Some 10000"]
  obtain e where e: "createSinEmbedding ideal ?p 2 (Some 10000) = Inr e" "shape e = [1, 2, 2]"
    by auto
  have "createSinEmbedding ideal ?p 2 (Some 10000)
       = Inr \<lparr>data = [Some (sin 1), Some (cos 1), Some (sin 2), Some (cos 2)], shape = [1, 2, 2],
              device = Some ''cpu'', dtype = Some ''float32''\<rparr>"
    by (simp add: createSinEmbedding_def zeros_def new_array_def zero_array_def ebind_def
        or_default_def product_def for_upto_def for_step2_def indices_numeral_simps
        evens_numeral_simps ta_set_def ta_get_def ideal_def eval_nat_numeral)
  with e show ?thesis by simp
qed

section \<open>Positions of a forward call: the loops\<close>

lemma product2 [simp]: "product [B, T] = B * (T :: int)"
  by (simp add: product_def)

lemma product1 [simp]: "product [B] = (B :: int)"
  by (simp add: product_def)

lemma expandedPositions_eq:
  assumes "0 \<le> B * T"
  shows "expandedPositions ops offs B T dev =
    Inr \<lparr>data = for_upto B (\<lambda>b. for_upto T (\<lambda>t d. ta_set d (b * T + t)
              (f32 ops (fadd ops (num ops t)
                 (ta_get ops (data offs) (min b (int (length (data offs)) - 1)))))))
            (zero_array ops (nat (B * T))),
          shape = [B, T], device = Some (or_default dev ''cpu''), dtype = Some ''float32''\<rparr>"
  using assms
  by (simp add: expandedPositions_def zeros_def new_array_def ebind_def Let_def)

lemma expandedPositions_nth:
  assumes "0 \<le> b" "b < B" "0 \<le> t" "t < T"
  shows "\<exists>e. expandedPositions ops offs B T dev = Inr e \<and> shape e = [B, T]
           \<and> int (length (data e)) = B * T
           \<and> data e ! nat (b * T + t)
               = f32 ops (fadd ops (num ops t)
                   (ta_get ops (data offs) (min b (int (length (data offs)) - 1))))"
proof -
  have nn: "0 \<le> B * T" using assms by simp
  let ?d = "for_upto B (\<lambda>b. for_upto T (\<lambda>t d. ta_set d (b * T + t)
              (f32 ops (fadd ops (num ops t)
                 (ta_get ops (data offs) (min b (int (length (data offs)) - 1)))))))
            (zero_array ops (nat (B * T)))"
  have "?d ! nat (b * T + t) = f32 ops (fadd ops (num ops t)
                   (ta_get ops (data offs) (min b (int (length (data offs)) - 1))))"
    by (rule for2_nth[OF assms]) (simp add: nn)
  moreover have "int (length ?d) = B * T"
    using nn by (simp only: for2_length length_zero_array)
  ultimately show ?thesis
    unfolding expandedPositions_eq[OF nn] by simp
qed

section \<open>The forward call of the streaming transformer\<close>

lemma ebind_Inr [simp]: "ebind (Inr v) f = f v"
  by (simp add: ebind_def)

lemma ebind_Inl [simp]: "ebind (Inl e) f = Inl e"
  by (simp add: ebind_def)

lemma ebind_eq_Inr: "ebind m f = Inr r \<longleftrightarrow> (\<exists>v. m = Inr v \<and> f v = Inr r)"
  by (cases m) simp_all

lemma indices_Suc: "indices (int (Suc n)) = indices (int n) @ [int n]"
  by (simp add: indices_def del: of_nat_Suc)

lemma for_upto_Suc: "for_upto (int (Suc n)) body s = body (int n) (for_upto (int n) body s)"
  by (simp add: for_upto_def indices_Suc del: of_nat_Suc)

lemma for_upto_0 [simp]: "for_upto 0 body s = s"
  by (simp add: for_upto_def indices_def)

text \<open>A loop that rewrites entry \<open>i\<close> from its own value.\<close>

lemma for_upto_pointwise:
  assumes "n \<le> length d"
  shows "for_upto (int n) (\<lambda>i d. if P i then ta_set d i (f (ta_get ops d i)) else d) d
         = map (\<lambda>k. if k < n \<and> P (int k) then f (d ! k) else d ! k) [0..<length d]"
  using assms
proof (induction n)
  case 0
  show ?case by (simp add: map_nth)
next
  case (Suc n)
  let ?body = "\<lambda>i d. if P i then ta_set d i (f (ta_get ops d i)) else d"
  let ?m = "\<lambda>n. map (\<lambda>k. if k < n \<and> P (int k) then f (d ! k) else d ! k) [0..<length d]"
  have ih: "for_upto (int n) ?body d = ?m n" using Suc by simp
  have n: "n < length d" using Suc.prems by simp
  have "?body (int n) (?m n) = ?m (Suc n)"
  proof (cases "P (int n)")
    case True
    have "ta_get ops (?m n) (int n) = d ! n" using n by (simp add: ta_get_def)
    then have "?body (int n) (?m n) = (?m n)[n := f (d ! n)]"
      using True n by (simp add: ta_set_def)
    also have "\<dots> = ?m (Suc n)"
    proof (rule nth_equalityI)
      show "length ((?m n)[n := f (d ! n)]) = length (?m (Suc n))" by simp
    next
      fix i assume "i < length ((?m n)[n := f (d ! n)])"
      then have i: "i < length d" by simp
      show "(?m n)[n := f (d ! n)] ! i = ?m (Suc n) ! i"
        using True i n by (cases "i = n") (auto simp: less_Suc_eq)
    qed
    finally show ?thesis .
  next
    case False
    then have "?m (Suc n) = ?m n"
      by (intro nth_equalityI) (auto simp: less_Suc_eq)
    then show ?thesis using False by simp
  qed
  then show ?case by (simp only: for_upto_Suc ih)
qed

lemma advance_offsets_data:
  "data (offsets (advance_offsets ops s T))
     = map (\<lambda>k. if (case execMask s of None \<Rightarrow> True | Some m \<Rightarrow> k < length m \<and> m ! k)
                 then f32 ops (fadd ops (data (offsets s) ! k) (num ops T))
                 else data (offsets s) ! k) [0..<length (data (offsets s))]"
proof -
  have m: "mask_at m (int k) \<longleftrightarrow> k < length m \<and> m ! k" for m k
    by (simp add: mask_at_def)
  have "data (offsets (advance_offsets ops s T))
      = for_upto (int (length (data (offsets s))))
          (\<lambda>i d. if (case execMask s of None \<Rightarrow> True | Some m \<Rightarrow> mask_at m i)
                  then ta_set d i ((\<lambda>v. f32 ops (fadd ops v (num ops T))) (ta_get ops d i)) else d)
          (data (offsets s))"
    by (simp add: advance_offsets_def)
  also have "\<dots> = map (\<lambda>k. if k < length (data (offsets s))
                            \<and> (case execMask s of None \<Rightarrow> True | Some m \<Rightarrow> mask_at m (int k))
                 then f32 ops (fadd ops (data (offsets s) ! k) (num ops T))
                 else data (offsets s) ! k) [0..<length (data (offsets s))]"
    by (rule for_upto_pointwise) simp
  also have "\<dots> = map (\<lambda>k. if (case execMask s of None \<Rightarrow> True | Some m \<Rightarrow> k < length m \<and> m ! k)
                 then f32 ops (fadd ops (data (offsets s) ! k) (num ops T))
                 else data (offsets s) ! k) [0..<length (data (offsets s))]"
    by (intro map_cong) (auto simp: m split: option.splits)
  finally show ?thesis .
qed

lemma Identity_forward_id [simp]: "Identity_forward x = x"
  by (simp add: Identity_forward_def)

lemma forward_layers_Identity:
  "list_all (\<lambda>l. l = Identity) ls \<Longrightarrow> forward_layers ops ls x = Inr x"
  by (induction ls) simp_all

lemma arange_ok:
  "0 \<le> n \<Longrightarrow> \<exists>p. arange ops n dev = Inr p \<and> int (length (data p)) = n"
  by (simp add: arange_def new_array_def Let_def)

lemma view_1T1:
  assumes "int (length (data p)) = T" and "T \<le> 2 ^ 53"
  shows "\<exists>r. view p [1, T, 1] = Inr r"
proof -
  have T: "0 \<le> T" using assms(1) by auto
  then have n: "T \<noteq> - 1" by simp
  have d: "dbl (real_of_int T) = Finite (real_of_int T)"
    using T assms(2) by (intro dbl_int) simp
  have l: "real (length (data p)) = real_of_int T" using assms(1) by auto
  show ?thesis
    using n by (simp add: view_eq Let_def dprod_def numbers_def dbl_one d l)
qed

lemma length_scale [simp]: "length (data (scale ops t k)) = length (data t)"
  by (simp add: scale_def Let_def)

lemma shape_scale [simp]: "shape (scale ops t k) = shape t"
  by (simp add: scale_def Let_def)

lemma forward_offsets_ok: "\<exists>offs. forward_offsets ops st dev = Inr offs"
  by (cases st) (simp_all add: forward_offsets_def zeros_eq)

lemma sin_branch_ok:
  assumes shp: "shape x = [B, T, C]" and w: "wf x" and T53: "T \<le> 2 ^ 53"
  shows "\<exists>x1. ebind (arange ops T dev) (\<lambda>positions.
                 ebind (view positions [1, T, 1]) (\<lambda>positionsReshaped.
                 ebind (expandedPositions ops offs B T dev) (\<lambda>expanded.
                 ebind (createSinEmbedding ops expanded C mp) (\<lambda>posEmb.
                   let scaledPosEmb = scale ops posEmb k
                   in add_t ops x scaledPosEmb)))) = Inr x1
              \<and> shape x1 = shape x \<and> length (data x1) = length (data x)
              \<and> device x1 = device x \<and> dtype x1 = dtype x"
proof -
  note d = wf3[OF w shp]
  obtain p where p: "arange ops T dev = Inr p" "int (length (data p)) = T"
    using arange_ok[OF d(2)] by blast
  obtain r where r: "view p [1, T, 1] = Inr r" using view_1T1[OF p(2) T53] by blast
  have nn2: "0 \<le> B * T" using d by simp
  have nn3: "0 \<le> B * T * C" using d by simp
  obtain e where e: "expandedPositions ops offs B T dev = Inr e" "shape e = B # T # []"
    using expandedPositions_eq[OF nn2, of ops offs dev] by simp
  obtain pe where pe: "createSinEmbedding ops e C mp = Inr pe" "int (length (data pe)) = B * T * C"
    using createSinEmbedding_eq[OF e(2) nn3, of ops mp] nn3
    by (simp only: tensor.simps sin_loops_length length_zero_array)
  have len: "length (data x) = length (data (scale ops pe k))"
    using pe(2) d(4) by simp
  show ?thesis
    using p(1) r e(1) pe(1) len by (simp add: add_t_eq)
qed

lemma forward_ok:
  assumes shp: "shape x = [B, T, C]" and w: "wf x" and T53: "T \<le> 2 ^ 53"
    and ls: "list_all (\<lambda>l. l = Identity) (layers this)"
  shows "\<exists>y. StreamingTransformer_forward ops this x
              = Inr (y, this\<lparr>streamingState :=
                     map_option (\<lambda>s. advance_offsets ops s T) (streamingState this)\<rparr>)
           \<and> shape y = shape x \<and> length (data y) = length (data x)
           \<and> device y = device x \<and> dtype y = dtype x"
proof -
  obtain offs where offs: "forward_offsets ops (streamingState this) (device x) = Inr offs"
    using forward_offsets_ok by blast
  show ?thesis
  proof (cases "positionalEmbedding this = ''sin'' \<or> positionalEmbedding this = ''sin_rope''")
    case True
    obtain x1 where x1: "ebind (arange ops T (device x)) (\<lambda>positions.
                 ebind (view positions [1, T, 1]) (\<lambda>positionsReshaped.
                 ebind (expandedPositions ops offs B T (device x)) (\<lambda>expanded.
                 ebind (createSinEmbedding ops expanded C (maxPeriod this)) (\<lambda>posEmb.
                   let scaledPosEmb = scale ops posEmb (positionalScale this)
                   in add_t ops x scaledPosEmb)))) = Inr x1"
      "shape x1 = shape x" "length (data x1) = length (data x)"
      "device x1 = device x" "dtype x1 = dtype x"
      using sin_branch_ok[OF shp w T53] by blast
    show ?thesis
      using True offs x1 forward_layers_Identity[OF ls] shp
      by (simp add: StreamingTransformer_forward_def Let_def)
  next
    case False
    show ?thesis
      using False offs forward_layers_Identity[OF ls] shp
      by (simp add: StreamingTransformer_forward_def Let_def)
  qed
qed

lemma forward_state:
  assumes "StreamingTransformer_forward ops this x = Inr (y, this')" and "shape x = B # T # C # rest"
  shows "streamingState this' = map_option (\<lambda>s. advance_offsets ops s T) (streamingState this)"
  using assms
  by (auto simp: StreamingTransformer_forward_def Let_def ebind_eq_Inr)

lemma sin_branch_parts:
  assumes shp: "shape x = [B, T, C]" and w: "wf x" and T53: "T \<le> 2 ^ 53"
  shows "\<exists>e pe y. expandedPositions ops offs B T dev = Inr e
           \<and> createSinEmbedding ops e C mp = Inr pe
           \<and> add_t ops x (scale ops pe k) = Inr y
           \<and> ebind (arange ops T dev) (\<lambda>positions.
                 ebind (view positions [1, T, 1]) (\<lambda>positionsReshaped.
                 ebind (expandedPositions ops offs B T dev) (\<lambda>expanded.
                 ebind (createSinEmbedding ops expanded C mp) (\<lambda>posEmb.
                   let scaledPosEmb = scale ops posEmb k
                   in add_t ops x scaledPosEmb)))) = Inr y
           \<and> dtype y = dtype x"
proof -
  note d = wf3[OF w shp]
  obtain p where p: "arange ops T dev = Inr p" "int (length (data p)) = T"
    using arange_ok[OF d(2)] by blast
  obtain r where r: "view p [1, T, 1] = Inr r" using view_1T1[OF p(2) T53] by blast
  have nn2: "0 \<le> B * T" using d by simp
  have nn3: "0 \<le> B * T * C" using d by simp
  obtain e where e: "expandedPositions ops offs B T dev = Inr e" "shape e = B # T # []"
    using expandedPositions_eq[OF nn2, of ops offs dev] by simp
  obtain pe where pe: "createSinEmbedding ops e C mp = Inr pe" "int (length (data pe)) = B * T * C"
    using createSinEmbedding_eq[OF e(2) nn3, of ops mp] nn3
    by (simp only: tensor.simps sin_loops_length length_zero_array)
  have len: "length (data x) = length (data (scale ops pe k))"
    using pe(2) d(4) by simp
  obtain y where y: "add_t ops x (scale ops pe k) = Inr y" "dtype y = dtype x"
    using len by (simp add: add_t_eq)
  have "ebind (arange ops T dev) (\<lambda>positions.
                 ebind (view positions [1, T, 1]) (\<lambda>positionsReshaped.
                 ebind (expandedPositions ops offs B T dev) (\<lambda>expanded.
                 ebind (createSinEmbedding ops expanded C mp) (\<lambda>posEmb.
                   let scaledPosEmb = scale ops posEmb k
                   in add_t ops x scaledPosEmb)))) = Inr y"
    using p(1) r e(1) pe(1) y(1) by simp
  with e(1) pe(1) y show ?thesis by blast
qed

lemma forward_sin:
  assumes shp: "shape x = [B, T, C]" and w: "wf x" and T53: "T \<le> 2 ^ 53"
    and ls: "list_all (\<lambda>l. l = Identity) (layers tr)"
    and pe: "positionalEmbedding tr = ''sin'' \<or> positionalEmbedding tr = ''sin_rope''"
  shows "\<exists>offs e pe y tr'.
           forward_offsets ops (streamingState tr) (device x) = Inr offs
           \<and> expandedPositions ops offs B T (device x) = Inr e
           \<and> createSinEmbedding ops e C (maxPeriod tr) = Inr pe
           \<and> add_t ops x (scale ops pe (positionalScale tr)) = Inr y
           \<and> StreamingTransformer_forward ops tr x = Inr (y, tr')"
proof -
  obtain offs where offs: "forward_offsets ops (streamingState tr) (device x) = Inr offs"
    using forward_offsets_ok by blast
  obtain e pe y where s: "expandedPositions ops offs B T (device x) = Inr e"
      "createSinEmbedding ops e C (maxPeriod tr) = Inr pe"
      "add_t ops x (scale ops pe (positionalScale tr)) = Inr y"
      "ebind (arange ops T (device x)) (\<lambda>positions.
                 ebind (view positions [1, T, 1]) (\<lambda>positionsReshaped.
                 ebind (expandedPositions ops offs B T (device x)) (\<lambda>expanded.
                 ebind (createSinEmbedding ops expanded C (maxPeriod tr)) (\<lambda>posEmb.
                   let scaledPosEmb = scale ops posEmb (positionalScale tr)
                   in add_t ops x scaledPosEmb)))) = Inr y"
      "dtype y = dtype x"
    using sin_branch_parts[OF shp w T53, of ops offs "device x" "maxPeriod tr" "positionalScale tr"]
    by blast
  have "\<lparr>data = data y, shape = shape y, device = device y, dtype = dtype x\<rparr> = y"
    using s(5) by simp
  then have "StreamingTransformer_forward ops tr x
          = Inr (y, tr\<lparr>streamingState :=
                     map_option (\<lambda>s. advance_offsets ops s T) (streamingState tr)\<rparr>)"
    using pe offs s(4) forward_layers_Identity[OF ls] shp
    by (simp add: StreamingTransformer_forward_def Let_def)
  with offs s(1-3) show ?thesis by blast
qed

lemma list2: "length xs = 2 \<Longrightarrow> xs = [xs ! 0, xs ! 1]"
  by (cases xs; cases "tl xs") auto

text \<open>
  C7 as the specification has it, refuted: the position is the sum of \<open>t\<close> and the offset
  after it has been stored in a \<^verbatim>\<open>Float32Array\<close>, which is not always that sum.  With the
  single offset \<open>2 ^ 24 = 16777216\<close> and three time steps, the positions are \<open>2 ^ 24\<close>,
  \<open>2 ^ 24\<close> and \<open>2 ^ 24 + 2\<close>: the position at \<open>t = 1\<close> is not \<open>1 + 2 ^ 24\<close>.
\<close>

theorem position_offsets_counterexample:
  "expandedPositions ieee
      \<lparr>data = [Some 16777216], shape = [1], device = Some ''cpu'', dtype = Some ''float32''\<rparr>
      1 3 None
     = Inr \<lparr>data = [Some 16777216, Some 16777216, Some 16777218], shape = [1, 3],
            device = Some ''cpu'', dtype = Some ''float32''\<rparr>"
  by (simp add: expandedPositions_def zeros_def new_array_def zero_array_def ebind_def
      or_default_def product_def for_upto_def indices_numeral_simps ta_set_def ta_get_def
      ieee_def binary_simps binary32_16777217 binary32_16777218 eval_nat_numeral)

text \<open>
  C7, amended.  In a forward call on an input of shape \<open>[B, T, C]\<close>, for every row \<open>b\<close> and
  time \<open>t\<close> of the input, and every arithmetic that is exact on the integers up to
  \<open>2 ^ 24\<close>: without a streaming state the offsets are the single zero made by
  \<^verbatim>\<open>zeros([1])\<close>, the base offset read for row \<open>b\<close> is \<open>0\<close> and the position is \<open>t\<close>, as
  long as \<open>t \<le> 2 ^ 24\<close>; with a streaming state of positive batch size, whose buffer has
  \<open>batchSize\<close> entries, the offsets are those of the state, the offset read for row \<open>b\<close> is
  \<open>offsets[min(b, batchSize - 1)]\<close>, so that the rows beyond the batch size of the state
  read its last offset, the position is the stored sum of \<open>t\<close> and that offset, and it is
  exactly \<open>t + n\<close> when the offset is an integer \<open>n \<ge> 0\<close> with \<open>t + n \<le> 2 ^ 24\<close>.  When the
  embedding kind is \<open>sin\<close> or \<open>sin_rope\<close>, the call on a well-formed input builds these
  offsets and positions, generates the embedding from them and returns the input plus
  the scaled embedding.
\<close>

theorem position_offsets:
  assumes "0 \<le> b" and "b < B" and "0 \<le> t" and "t < T" and "integer_sums_exact ops"
  shows "(t \<le> 2 ^ 24 \<longrightarrow>
           (\<exists>offs e. forward_offsets ops None dev = Inr offs
            \<and> ta_get ops (data offs) (min b (int (length (data offs)) - 1)) = num ops 0
            \<and> expandedPositions ops offs B T dev = Inr e
            \<and> data e ! nat (b * T + t) = num ops t))
       \<and> (int (length (data (offsets s))) = batchSize s \<and> 0 < batchSize s \<longrightarrow>
           (\<exists>e. forward_offsets ops (Some s) dev = Inr (offsets s)
              \<and> expandedPositions ops (offsets s) B T dev = Inr e
              \<and> data e ! nat (b * T + t)
                   = f32 ops (fadd ops (num ops t)
                       (data (offsets s) ! nat (min b (batchSize s - 1))))
              \<and> (\<forall>n. data (offsets s) ! nat (min b (batchSize s - 1)) = num ops n
                      \<and> 0 \<le> n \<and> t + n \<le> 2 ^ 24
                    \<longrightarrow> data e ! nat (b * T + t) = num ops (t + n))))
       \<and> (shape x = [B, T, C] \<and> wf x \<and> T \<le> 2 ^ 53
            \<and> list_all (\<lambda>l. l = Identity) (layers tr)
            \<and> (positionalEmbedding tr = ''sin'' \<or> positionalEmbedding tr = ''sin_rope'') \<longrightarrow>
           (\<exists>offs e pe y tr'.
              forward_offsets ops (streamingState tr) (device x) = Inr offs
              \<and> expandedPositions ops offs B T (device x) = Inr e
              \<and> createSinEmbedding ops e C (maxPeriod tr) = Inr pe
              \<and> add_t ops x (scale ops pe (positionalScale tr)) = Inr y
              \<and> StreamingTransformer_forward ops tr x = Inr (y, tr')))"
proof (intro conjI impI)
  note h = assms(1-4)
  assume t24: "t \<le> 2 ^ 24"
  let ?z = "\<lparr>data = [num ops 0], shape = [1 :: int], device = Some (or_default dev ''cpu''),
             dtype = Some ''float32''\<rparr>"
  have z: "forward_offsets ops None dev = Inr ?z"
    by (simp add: forward_offsets_def zeros_eq zero_array_def)
  have g: "ta_get ops (data ?z) (min b (int (length (data ?z)) - 1)) = num ops 0"
    using assms(1) by (simp add: ta_get_def)
  obtain e where e: "expandedPositions ops ?z B T dev = Inr e"
      "data e ! nat (b * T + t) = f32 ops (fadd ops (num ops t)
          (ta_get ops (data ?z) (min b (int (length (data ?z)) - 1))))"
    using expandedPositions_nth[OF h, of ops ?z dev] by blast
  have "f32 ops (fadd ops (num ops t) (num ops 0)) = num ops (t + 0)"
    using assms(3) t24 by (intro stored_sum[OF assms(5)]) simp_all
  with e(2) have "data e ! nat (b * T + t) = num ops t"
    unfolding g by simp
  with z g e(1) show "\<exists>offs e. forward_offsets ops None dev = Inr offs
            \<and> ta_get ops (data offs) (min b (int (length (data offs)) - 1)) = num ops 0
            \<and> expandedPositions ops offs B T dev = Inr e
            \<and> data e ! nat (b * T + t) = num ops t"
    by blast
next
  note h = assms(1-4)
  assume inv: "int (length (data (offsets s))) = batchSize s \<and> 0 < batchSize s"
  have g: "ta_get ops (data (offsets s)) (min b (int (length (data (offsets s))) - 1))
           = data (offsets s) ! nat (min b (batchSize s - 1))"
  proof -
    have "0 \<le> min b (batchSize s - 1)" "min b (batchSize s - 1) < int (length (data (offsets s)))"
      using inv assms(1) by auto
    then show ?thesis using inv by (simp add: ta_get_def)
  qed
  obtain e where e: "expandedPositions ops (offsets s) B T dev = Inr e"
      "data e ! nat (b * T + t) = f32 ops (fadd ops (num ops t)
          (ta_get ops (data (offsets s)) (min b (int (length (data (offsets s))) - 1))))"
    using expandedPositions_nth[OF h, of ops "offsets s" dev] by blast
  have e2: "data e ! nat (b * T + t)
              = f32 ops (fadd ops (num ops t) (data (offsets s) ! nat (min b (batchSize s - 1))))"
    using e(2) unfolding g .
  have ex: "\<forall>n. data (offsets s) ! nat (min b (batchSize s - 1)) = num ops n
                      \<and> 0 \<le> n \<and> t + n \<le> 2 ^ 24
                    \<longrightarrow> data e ! nat (b * T + t) = num ops (t + n)"
  proof (intro allI impI)
    fix n
    assume n: "data (offsets s) ! nat (min b (batchSize s - 1)) = num ops n
                 \<and> 0 \<le> n \<and> t + n \<le> 2 ^ 24"
    have "f32 ops (fadd ops (num ops t) (num ops n)) = num ops (t + n)"
      using assms(3) n by (intro stored_sum[OF assms(5)]) simp_all
    then show "data e ! nat (b * T + t) = num ops (t + n)" using e2 n by simp
  qed
  have "forward_offsets ops (Some s) dev = Inr (offsets s)" by (simp add: forward_offsets_def)
  with e(1) e2 ex show "\<exists>e. forward_offsets ops (Some s) dev = Inr (offsets s)
              \<and> expandedPositions ops (offsets s) B T dev = Inr e
              \<and> data e ! nat (b * T + t)
                   = f32 ops (fadd ops (num ops t)
                       (data (offsets s) ! nat (min b (batchSize s - 1))))
              \<and> (\<forall>n. data (offsets s) ! nat (min b (batchSize s - 1)) = num ops n
                      \<and> 0 \<le> n \<and> t + n \<le> 2 ^ 24
                    \<longrightarrow> data e ! nat (b * T + t) = num ops (t + n))"
    by blast
next
  assume "shape x = [B, T, C] \<and> wf x \<and> T \<le> 2 ^ 53
            \<and> list_all (\<lambda>l. l = Identity) (layers tr)
            \<and> (positionalEmbedding tr = ''sin'' \<or> positionalEmbedding tr = ''sin_rope'')"
  then show "\<exists>offs e pe y tr'.
              forward_offsets ops (streamingState tr) (device x) = Inr offs
              \<and> expandedPositions ops offs B T (device x) = Inr e
              \<and> createSinEmbedding ops e C (maxPeriod tr) = Inr pe
              \<and> add_t ops x (scale ops pe (positionalScale tr)) = Inr y
              \<and> StreamingTransformer_forward ops tr x = Inr (y, tr')"
    using forward_sin[of x B T C tr ops] by blast
qed

theorem position_offsets_witness:
  "(0 :: int) \<le> 2 \<and> (2 :: int) < 3 \<and> (0 :: int) \<le> 1 \<and> (1 :: int) < 2
   \<and> integer_sums_exact ieee
   \<and> int (length (data (offsets \<lparr>batchSize = 2, sdevice = ''cpu'',
          offsets = \<lparr>data = [Some 4, Some (7 :: real)], shape = [2 :: int], device = Some ''cpu'',
                     dtype = Some ''float32''\<rparr>, execMask = None\<rparr>))) = 2
   \<and> (\<exists>e. expandedPositions ieee \<lparr>data = [Some 4, Some 7], shape = [2], device = Some ''cpu'',
                     dtype = Some ''float32''\<rparr> 3 2 None = Inr e
          \<and> data e ! nat (2 * 2 + 1) = Some 8)"
proof -
  let ?s = "\<lparr>batchSize = 2, sdevice = ''cpu'',
          offsets = \<lparr>data = [Some 4, Some (7 :: real)], shape = [2 :: int], device = Some ''cpu'',
                     dtype = Some ''float32''\<rparr>, execMask = None\<rparr>"
  have h: "(0 :: int) \<le> 2" "(2 :: int) < 3" "(0 :: int) \<le> 1" "(1 :: int) < 2" by simp_all
  have i: "int (length (data (offsets ?s))) = batchSize ?s \<and> 0 < batchSize ?s" by simp
  have n7: "data (offsets ?s) ! nat (min 2 (batchSize ?s - 1)) = num ieee 7
              \<and> (0 :: int) \<le> 7 \<and> (1 :: int) + 7 \<le> 2 ^ 24"
    by (simp add: num_ieee)
  from position_offsets [OF h ieee_integer_sums_exact, of None ?s] i
  obtain e where e: "expandedPositions ieee (offsets ?s) 3 2 None = Inr e"
    "\<forall>n. data (offsets ?s) ! nat (min 2 (batchSize ?s - 1)) = num ieee n
            \<and> 0 \<le> n \<and> 1 + n \<le> 2 ^ 24
          \<longrightarrow> data e ! nat (2 * 2 + 1) = num ieee (1 + n)"
    by blast
  from e(2) n7 have "data e ! nat (2 * 2 + 1) = num ieee (1 + 7)" by blast
  then have "data e ! nat (2 * 2 + 1) = Some 8" by (simp add: num_ieee)
  with e(1) have "\<exists>e. expandedPositions ieee (offsets ?s) 3 2 None = Inr e
                     \<and> data e ! nat (2 * 2 + 1) = Some 8" by blast
  then show ?thesis using h i ieee_integer_sums_exact by simp
qed

text \<open>
  C1 as the specification has it, refuted: an offset is advanced by storing the sum of
  its value and \<open>T\<close> in a \<^verbatim>\<open>Float32Array\<close>.  A forward call with \<open>T = 1\<close> and no mask on a
  state whose offset is \<open>2 ^ 24 = 16777216\<close> returns the transformer as it was: the offset
  has not moved.
\<close>

theorem forward_advances_offsets_counterexample:
  "StreamingTransformer_forward ieee
       \<lparr>dModel = 1, numLayers = Some 1, positionalEmbedding = ''none'', maxPeriod = Some 10000,
        positionalScale = Some 1, layers = [Identity],
        streamingState = Some \<lparr>batchSize = 1, sdevice = ''cpu'',
          offsets = \<lparr>data = [Some 16777216], shape = [1], device = Some ''cpu'',
                     dtype = Some ''float32''\<rparr>,
          execMask = None\<rparr>\<rparr>
       \<lparr>data = [Some 0], shape = [1, 1, 1], device = Some ''cpu'', dtype = Some ''float32''\<rparr>
     = Inr (\<lparr>data = [Some 0], shape = [1, 1, 1], device = Some ''cpu'',
              dtype = Some ''float32''\<rparr>,
            \<lparr>dModel = 1, numLayers = Some 1, positionalEmbedding = ''none'',
             maxPeriod = Some 10000, positionalScale = Some 1, layers = [Identity],
             streamingState = Some \<lparr>batchSize = 1, sdevice = ''cpu'',
               offsets = \<lparr>data = [Some 16777216], shape = [1], device = Some ''cpu'',
                          dtype = Some ''float32''\<rparr>,
               execMask = None\<rparr>\<rparr>)"
  by (simp add: StreamingTransformer_forward_def forward_offsets_def Let_def
      advance_offsets_def for_upto_def indices_numeral_simps ta_set_def ta_get_def
      ieee_def binary_simps binary32_16777217)

text \<open>
  C1, amended.  For a forward call on an input of shape \<open>[B, T, C]\<close> with a streaming
  state attached, and every arithmetic that is exact on the integers up to \<open>2 ^ 24\<close>:
  whenever the call returns, the state has as many offsets as before; every offset whose
  row is not excluded by the mask (no mask, or \<open>execMask[i]\<close> true) has become the stored sum
  of its old value and \<open>T\<close>, which is exactly \<open>n + T\<close> when the old value is an integer
  \<open>n \<ge> 0\<close> with \<open>n + T \<le> 2 ^ 24\<close>; and every other offset (\<open>execMask[i]\<close> false, or \<open>i\<close>
  beyond the mask) is as it was.  On a well-formed input, with the identity layers the
  constructor installs, the call does return.
\<close>

theorem forward_advances_offsets:
  assumes "shape x = [B, T, C]" and "streamingState this = Some s"
    and "integer_sums_exact ops" and "0 \<le> T"
  shows "(\<forall>y this'. StreamingTransformer_forward ops this x = Inr (y, this') \<longrightarrow>
           (\<exists>s'. streamingState this' = Some s'
              \<and> length (data (offsets s')) = length (data (offsets s))
              \<and> (\<forall>i < length (data (offsets s)).
                    ((case execMask s of None \<Rightarrow> True | Some m \<Rightarrow> i < length m \<and> m ! i) \<longrightarrow>
                        (data (offsets s') ! i
                           = f32 ops (fadd ops (data (offsets s) ! i) (num ops T))
                         \<and> (\<forall>n. data (offsets s) ! i = num ops n \<and> 0 \<le> n \<and> n + T \<le> 2 ^ 24
                               \<longrightarrow> data (offsets s') ! i = num ops (n + T))))
                    \<and> (\<not> (case execMask s of None \<Rightarrow> True | Some m \<Rightarrow> i < length m \<and> m ! i) \<longrightarrow>
                           data (offsets s') ! i = data (offsets s) ! i))))
       \<and> (wf x \<and> T \<le> 2 ^ 53 \<and> list_all (\<lambda>l. l = Identity) (layers this) \<longrightarrow>
            (\<exists>y this'. StreamingTransformer_forward ops this x = Inr (y, this')))"
proof (intro conjI allI impI)
  fix y this'
  assume f: "StreamingTransformer_forward ops this x = Inr (y, this')"
  have st: "streamingState this' = Some (advance_offsets ops s T)"
    using forward_state[OF f assms(1)] assms(2) by simp
  let ?s' = "advance_offsets ops s T"
  have "length (data (offsets ?s')) = length (data (offsets s))"
    by (simp add: advance_offsets_data)
  moreover have "\<forall>i < length (data (offsets s)).
                    ((case execMask s of None \<Rightarrow> True | Some m \<Rightarrow> i < length m \<and> m ! i) \<longrightarrow>
                        (data (offsets ?s') ! i
                           = f32 ops (fadd ops (data (offsets s) ! i) (num ops T))
                         \<and> (\<forall>n. data (offsets s) ! i = num ops n \<and> 0 \<le> n \<and> n + T \<le> 2 ^ 24
                               \<longrightarrow> data (offsets ?s') ! i = num ops (n + T))))
                    \<and> (\<not> (case execMask s of None \<Rightarrow> True | Some m \<Rightarrow> i < length m \<and> m ! i) \<longrightarrow>
                           data (offsets ?s') ! i = data (offsets s) ! i)"
  proof (intro allI impI)
    fix i assume i: "i < length (data (offsets s))"
    define g where "g = (\<lambda>k. if (case execMask s of None \<Rightarrow> True | Some m \<Rightarrow> k < length m \<and> m ! k)
                 then f32 ops (fadd ops (data (offsets s) ! k) (num ops T))
                 else data (offsets s) ! k)"
    have "data (offsets ?s') = map g [0..<length (data (offsets s))]"
      unfolding g_def by (rule advance_offsets_data)
    then have gi: "data (offsets ?s') ! i = g i" using i by simp
    show "((case execMask s of None \<Rightarrow> True | Some m \<Rightarrow> i < length m \<and> m ! i) \<longrightarrow>
              (data (offsets ?s') ! i
                 = f32 ops (fadd ops (data (offsets s) ! i) (num ops T))
               \<and> (\<forall>n. data (offsets s) ! i = num ops n \<and> 0 \<le> n \<and> n + T \<le> 2 ^ 24
                     \<longrightarrow> data (offsets ?s') ! i = num ops (n + T))))
          \<and> (\<not> (case execMask s of None \<Rightarrow> True | Some m \<Rightarrow> i < length m \<and> m ! i) \<longrightarrow>
                 data (offsets ?s') ! i = data (offsets s) ! i)"
    proof (cases "case execMask s of None \<Rightarrow> True | Some m \<Rightarrow> i < length m \<and> m ! i")
      case True
      then have v: "data (offsets ?s') ! i = f32 ops (fadd ops (data (offsets s) ! i) (num ops T))"
        using gi by (simp add: g_def)
      have "\<forall>n. data (offsets s) ! i = num ops n \<and> 0 \<le> n \<and> n + T \<le> 2 ^ 24
                     \<longrightarrow> data (offsets ?s') ! i = num ops (n + T)"
      proof (intro allI impI)
        fix n
        assume n: "data (offsets s) ! i = num ops n \<and> 0 \<le> n \<and> n + T \<le> 2 ^ 24"
        have "f32 ops (fadd ops (num ops n) (num ops T)) = num ops (n + T)"
          using n assms(4) by (intro stored_sum[OF assms(3)]) simp_all
        then show "data (offsets ?s') ! i = num ops (n + T)" using v n by simp
      qed
      with v True show ?thesis by simp
    next
      case False
      then have "data (offsets ?s') ! i = data (offsets s) ! i" using gi by (simp add: g_def)
      with False show ?thesis by simp
    qed
  qed
  ultimately show "\<exists>s'. streamingState this' = Some s'
              \<and> length (data (offsets s')) = length (data (offsets s))
              \<and> (\<forall>i < length (data (offsets s)).
                    ((case execMask s of None \<Rightarrow> True | Some m \<Rightarrow> i < length m \<and> m ! i) \<longrightarrow>
                        (data (offsets s') ! i
                           = f32 ops (fadd ops (data (offsets s) ! i) (num ops T))
                         \<and> (\<forall>n. data (offsets s) ! i = num ops n \<and> 0 \<le> n \<and> n + T \<le> 2 ^ 24
                               \<longrightarrow> data (offsets s') ! i = num ops (n + T))))
                    \<and> (\<not> (case execMask s of None \<Rightarrow> True | Some m \<Rightarrow> i < length m \<and> m ! i) \<longrightarrow>
                           data (offsets s') ! i = data (offsets s) ! i))"
    using st by blast
next
  assume "wf x \<and> T \<le> 2 ^ 53 \<and> list_all (\<lambda>l. l = Identity) (layers this)"
  then show "\<exists>y this'. StreamingTransformer_forward ops this x = Inr (y, this')"
    using forward_ok[OF assms(1), of this ops] by blast
qed

theorem forward_advances_offsets_witness:
  "integer_sums_exact ieee
   \<and> (\<exists>y this' s'.
     StreamingTransformer_forward ieee
       \<lparr>dModel = 1, numLayers = Some 1, positionalEmbedding = ''sin'', maxPeriod = Some 10000,
        positionalScale = Some 1, layers = [Identity],
        streamingState = Some \<lparr>batchSize = 2, sdevice = ''cpu'',
          offsets = \<lparr>data = [Some 0, Some 5], shape = [2], device = Some ''cpu'',
                     dtype = Some ''float32''\<rparr>,
          execMask = Some [True, False]\<rparr>\<rparr>
       \<lparr>data = [Some 0, Some 0, Some 0, Some 0, Some 0, Some 0], shape = [2, 3, 1],
        device = Some ''cpu'', dtype = Some ''float32''\<rparr> = Inr (y, this')
     \<and> streamingState this' = Some s' \<and> data (offsets s') = [Some 3, Some 5])"
proof -
  let ?s = "\<lparr>batchSize = 2, sdevice = ''cpu'',
          offsets = \<lparr>data = [Some 0, Some (5 :: real)], shape = [2 :: int], device = Some ''cpu'',
                     dtype = Some ''float32''\<rparr>,
          execMask = Some [True, False]\<rparr>"
  let ?tr = "\<lparr>dModel = 1, numLayers = Some 1, positionalEmbedding = ''sin'',
        maxPeriod = Some (10000 :: real),
        positionalScale = Some (1 :: real), layers = [Identity], streamingState = Some ?s\<rparr>"
  let ?x = "\<lparr>data = [Some 0, Some 0, Some 0, Some 0, Some 0, Some (0 :: real)],
        shape = [2, 3, 1 :: int], device = Some ''cpu'', dtype = Some ''float32''\<rparr>"
  have h: "shape ?x = [2, 3, 1]" "streamingState ?tr = Some ?s" by simp_all
  have T: "(0 :: int) \<le> 3" by simp
  have w: "wf ?x \<and> (3 :: int) \<le> 2 ^ 53 \<and> list_all (\<lambda>l. l = Identity) (layers ?tr)"
    by (simp add: wf_def product_def)
  note t = forward_advances_offsets [OF h ieee_integer_sums_exact T]
  from t w obtain y this' where f: "StreamingTransformer_forward ieee ?tr ?x = Inr (y, this')"
    by blast
  with t obtain s' where s': "streamingState this' = Some s'"
      "length (data (offsets s')) = length (data (offsets ?s))"
      "\<forall>i < length (data (offsets ?s)).
          ((case execMask ?s of None \<Rightarrow> True | Some m \<Rightarrow> i < length m \<and> m ! i) \<longrightarrow>
              (data (offsets s') ! i
                 = f32 ieee (fadd ieee (data (offsets ?s) ! i) (num ieee 3))
               \<and> (\<forall>n. data (offsets ?s) ! i = num ieee n \<and> 0 \<le> n \<and> n + 3 \<le> 2 ^ 24
                     \<longrightarrow> data (offsets s') ! i = num ieee (n + 3))))
          \<and> (\<not> (case execMask ?s of None \<Rightarrow> True | Some m \<Rightarrow> i < length m \<and> m ! i) \<longrightarrow>
                 data (offsets s') ! i = data (offsets ?s) ! i)"
    by blast
  have i0: "(0 :: nat) < length (data (offsets ?s))" by simp
  have m0: "case execMask ?s of None \<Rightarrow> True | Some m \<Rightarrow> 0 < length m \<and> m ! 0" by simp
  have "\<forall>n. data (offsets ?s) ! 0 = num ieee n \<and> 0 \<le> n \<and> n + 3 \<le> 2 ^ 24
                     \<longrightarrow> data (offsets s') ! 0 = num ieee (n + 3)"
    using s'(3)[rule_format, OF i0] m0 by blast
  moreover have "data (offsets ?s) ! 0 = num ieee 0 \<and> (0 :: int) \<le> 0 \<and> (0 :: int) + 3 \<le> 2 ^ 24"
    by (simp add: num_ieee)
  ultimately have "data (offsets s') ! 0 = num ieee (0 + 3)" by blast
  then have 0: "data (offsets s') ! 0 = Some 3" by (simp add: num_ieee)
  have i1: "(1 :: nat) < length (data (offsets ?s))" by simp
  have m1: "\<not> (case execMask ?s of None \<Rightarrow> True | Some m \<Rightarrow> 1 < length m \<and> m ! 1)" by simp
  have "data (offsets s') ! 1 = data (offsets ?s) ! 1"
    using s'(3)[rule_format, OF i1] m1 by blast
  then have 1: "data (offsets s') ! 1 = Some 5" by simp
  have "length (data (offsets s')) = 2" using s'(2) by simp
  with 0 1 have "data (offsets s') = [Some 3, Some 5]" using list2 by metis
  with f s'(1) ieee_integer_sums_exact show ?thesis by blast
qed

section \<open>The forward call of the projected transformer\<close>

lemma Linear_new_ok:
  assumes "0 \<le> inF * outF"
  shows "\<exists>l k'. Linear_new ops rnd k inF outF False = Inr (l, k')
           \<and> inFeatures l = inF \<and> outFeatures l = outF"
  using assms by (simp add: Linear_new_def new_array_def Let_def)

lemma Linear_new_fields:
  assumes "Linear_new ops rnd k inF outF b = Inr (l, k')"
  shows "inFeatures l = inF \<and> outFeatures l = outF"
  using assms
  by (auto simp: Linear_new_def new_array_def Let_def ebind_eq_Inr split: if_splits)

lemma Linear_forward_eq:
  assumes "0 \<le> product (butlast (shape x) @ [outFeatures l])"
  shows "\<exists>r. Linear_forward ops l x = Inr r
           \<and> shape r = butlast (shape x) @ [outFeatures l]
           \<and> int (length (data r)) = product (butlast (shape x) @ [outFeatures l])"
proof -
  let ?shp = "butlast (shape x) @ [outFeatures l]"
  have z: "zeros ops ?shp None
            = Inr \<lparr>data = replicate (nat (product ?shp)) (num ops 0), shape = ?shp,
                   device = Some (or_default None ''cpu''), dtype = Some ''float32''\<rparr>"
    using assms by (simp add: zeros_eq)
  show ?thesis
    using assms unfolding Linear_forward_def Let_def z
    by (simp only: ebind_Inr tensor.simps tensor.update_convs for2_length length_replicate) simp
qed

lemma Linear_forward_shape:
  assumes "Linear_forward ops l x = Inr r"
  shows "shape r = butlast (shape x) @ [outFeatures l]"
  using assms
  by (auto simp: Linear_forward_def Let_def ebind_eq_Inr zeros_eq split: if_splits)

lemma fold_snoc_Identity:
  "list_all (\<lambda>l. l = Identity) ls \<Longrightarrow> list_all (\<lambda>l. l = Identity) (fold (\<lambda>i ls. ls @ [Identity]) js ls)"
  by (induction js arbitrary: ls) simp_all

lemma StreamingTransformer_new_ok:
  assumes "or_default (o_positionalEmbedding options) ''sin'' \<in> set validEmbeddings"
  shows "\<exists>tr. StreamingTransformer_new ops options = Inr tr
           \<and> list_all (\<lambda>l. l = Identity) (layers tr) \<and> streamingState tr = None"
  using assms
  by (simp add: StreamingTransformer_new_def Let_def for_upto_def fold_snoc_Identity)

lemma StreamingTransformer_new_layers:
  assumes "StreamingTransformer_new ops options = Inr tr"
  shows "list_all (\<lambda>l. l = Identity) (layers tr)"
  using assms
  by (auto simp: StreamingTransformer_new_def Let_def for_upto_def fold_snoc_Identity
      split: if_splits)

lemma make_outputProjs_result:
  assumes "make_outputProjs ops rnd k dm ds = Inr (ps, k')"
  shows "length ps = length ds
       \<and> (\<forall>j < length ds.
            (ds ! j = dm \<longrightarrow> ps ! j = Identity)
          \<and> (ds ! j \<noteq> dm \<longrightarrow> (\<exists>l. ps ! j = Linear l \<and> inFeatures l = dm \<and> outFeatures l = ds ! j)))"
  using assms
proof (induction ds arbitrary: k ps)
  case Nil
  then show ?case by simp
next
  case (Cons d ds)
  show ?case
  proof (cases "dm = d")
    case True
    with Cons.prems obtain ps0 where r: "make_outputProjs ops rnd k dm ds = Inr (ps0, k')"
        "ps = Identity # ps0"
      by (auto simp: ebind_eq_Inr)
    from Cons.IH[OF r(1)] True r(2) show ?thesis
      by (auto simp: nth_Cons split: nat.splits)
  next
    case False
    with Cons.prems obtain l k1 ps0 where r: "Linear_new ops rnd k dm d False = Inr (l, k1)"
        "make_outputProjs ops rnd k1 dm ds = Inr (ps0, k')" "ps = Linear l # ps0"
      by (auto simp: ebind_eq_Inr)
    from Cons.IH[OF r(2)] False r(3) Linear_new_fields[OF r(1)] show ?thesis
      by (auto simp: nth_Cons split: nat.splits)
  qed
qed

lemma project_outputs_result:
  assumes "project_outputs ops cl ps z = Inr ys"
  shows "length ys = length ps
       \<and> (\<forall>j < length ps. \<exists>y0. layer_forward ops (ps ! j) z = Inr y0
              \<and> (if cl then transpose_t ops y0 1 2 = Inr (ys ! j) else ys ! j = y0))"
proof -
  define Q where "Q = (\<lambda>y0 y. if cl then transpose_t ops y0 1 2 = Inr y else y = y0)"
  have "length ys = length ps
       \<and> (\<forall>j < length ps. \<exists>y0. layer_forward ops (ps ! j) z = Inr y0 \<and> Q y0 (ys ! j))"
    using assms
  proof (induction ps arbitrary: ys)
    case Nil
    then show ?case by simp
  next
    case (Cons p ps)
    from Cons.prems obtain y0 y' ys0 where r: "layer_forward ops p z = Inr y0"
        "(if cl then transpose_t ops y0 1 2 else Inr y0) = Inr y'"
        "project_outputs ops cl ps z = Inr ys0" "ys = y' # ys0"
      by (auto simp: ebind_eq_Inr)
    have h: "Q y0 y'" using r(2) by (auto simp: Q_def split: if_splits)
    note ih = Cons.IH[OF r(3)]
    have "\<exists>y0. layer_forward ops ((p # ps) ! j) z = Inr y0 \<and> Q y0 (ys ! j)"
      if "j < length (p # ps)" for j
    proof (cases j)
      case 0
      then show ?thesis using r(1,4) h by auto
    next
      case (Suc j')
      then have "j' < length ps" using that by simp
      then show ?thesis using ih Suc r(4) by simp
    qed
    then show ?case using ih r(4) by simp
  qed
  then show ?thesis unfolding Q_def .
qed

lemma ProjectedTransformer_new_result:
  assumes "ProjectedTransformer_new ops rnd k options = Inr (pt, k')"
  shows "\<exists>k1. make_outputProjs ops rnd k1 (p_dModel options) (p_outputDimensions options)
               = Inr (outputProjs pt, k')"
    and "convLayout pt = (case p_convLayout options of None \<Rightarrow> False | Some c \<Rightarrow> c)"
    and "list_all (\<lambda>l. l = Identity) (layers (transformer pt))"
    and "streamingState (transformer pt) = None"
proof -
  from assms obtain tr ip k1 ps where
    tr: "StreamingTransformer_new ops
               \<lparr>o_dModel = (case t_dModel (case p_transformerOptions options of
                     None \<Rightarrow> \<lparr>t_dModel = None, t_numLayers = None, t_positionalEmbedding = None,
                               t_maxPeriod = None, t_positionalScale = None\<rparr>
                   | Some t \<Rightarrow> t) of None \<Rightarrow> p_dModel options | Some d \<Rightarrow> d),
                o_numLayers = t_numLayers (case p_transformerOptions options of
                     None \<Rightarrow> \<lparr>t_dModel = None, t_numLayers = None, t_positionalEmbedding = None,
                               t_maxPeriod = None, t_positionalScale = None\<rparr>
                   | Some t \<Rightarrow> t),
                o_positionalEmbedding = t_positionalEmbedding (case p_transformerOptions options of
                     None \<Rightarrow> \<lparr>t_dModel = None, t_numLayers = None, t_positionalEmbedding = None,
                               t_maxPeriod = None, t_positionalScale = None\<rparr>
                   | Some t \<Rightarrow> t),
                o_maxPeriod = t_maxPeriod (case p_transformerOptions options of
                     None \<Rightarrow> \<lparr>t_dModel = None, t_numLayers = None, t_positionalEmbedding = None,
                               t_maxPeriod = None, t_positionalScale = None\<rparr>
                   | Some t \<Rightarrow> t),
                o_positionalScale = t_positionalScale (case p_transformerOptions options of
                     None \<Rightarrow> \<lparr>t_dModel = None, t_numLayers = None, t_positionalEmbedding = None,
                               t_maxPeriod = None, t_positionalScale = None\<rparr>
                   | Some t \<Rightarrow> t)\<rparr> = Inr tr"
    and ps: "make_outputProjs ops rnd k1 (p_dModel options) (p_outputDimensions options) = Inr (ps, k')"
    and pt: "pt = \<lparr>transformer = tr, inputProj = ip, outputProjs = ps,
                   convLayout = (case p_convLayout options of None \<Rightarrow> False | Some c \<Rightarrow> c)\<rparr>"
    unfolding ProjectedTransformer_new_def Let_def
    by (auto simp: ebind_eq_Inr)
  show "\<exists>k1. make_outputProjs ops rnd k1 (p_dModel options) (p_outputDimensions options)
               = Inr (outputProjs pt, k')"
    using ps pt by auto
  show "convLayout pt = (case p_convLayout options of None \<Rightarrow> False | Some c \<Rightarrow> c)"
    using pt by simp
  show "list_all (\<lambda>l. l = Identity) (layers (transformer pt))"
    using StreamingTransformer_new_layers[OF tr] pt by simp
  show "streamingState (transformer pt) = None"
    using tr pt by (auto simp: StreamingTransformer_new_def Let_def split: if_splits)
qed

lemma ProjectedTransformer_forward_result:
  assumes "ProjectedTransformer_forward ops pt x = Inr (ys, pt')"
  shows "\<exists>x2 z tr'. StreamingTransformer_forward ops (transformer pt) x2 = Inr (z, tr')
           \<and> project_outputs ops (convLayout pt) (outputProjs pt) z = Inr ys"
  using assms unfolding ProjectedTransformer_forward_def
  by (auto simp: ebind_eq_Inr)

lemma projected_instance:
  assumes o1: "p_inputDimension options = 6" and o2: "p_outputDimensions options = [4, 8]"
    and o3: "p_dModel options = 4"
    and o4: "p_convLayout options = None \<or> p_convLayout options = Some False"
    and o5: "or_default (case p_transformerOptions options of None \<Rightarrow> None
                         | Some t \<Rightarrow> t_positionalEmbedding t) ''sin'' \<in> set validEmbeddings"
    and w: "wf x" and shp: "shape x = [2, 3, 6]"
  shows "\<exists>pt k' y1 y2 pt'. ProjectedTransformer_new ops rnd k options = Inr (pt, k')
           \<and> ProjectedTransformer_forward ops pt x = Inr ([y1, y2], pt')
           \<and> shape y1 = [2, 3, 4] \<and> shape y2 = [2, 3, 8]"
proof -
  let ?topts = "case p_transformerOptions options of
                     None \<Rightarrow> \<lparr>t_dModel = None, t_numLayers = None, t_positionalEmbedding = None,
                               t_maxPeriod = None, t_positionalScale = None\<rparr>
                   | Some t \<Rightarrow> t"
  let ?o = "\<lparr>o_dModel = (case t_dModel ?topts of None \<Rightarrow> 4 | Some d \<Rightarrow> d),
                o_numLayers = t_numLayers ?topts,
                o_positionalEmbedding = t_positionalEmbedding ?topts,
                o_maxPeriod = t_maxPeriod ?topts,
                o_positionalScale = t_positionalScale ?topts\<rparr>"
  have "or_default (o_positionalEmbedding ?o) ''sin'' \<in> set validEmbeddings"
    using o5 by (cases "p_transformerOptions options") simp_all
  then obtain tr where tr: "StreamingTransformer_new ops ?o = Inr tr"
      "list_all (\<lambda>l. l = Identity) (layers tr)"
    using StreamingTransformer_new_ok[of ?o ops] by blast
  obtain lin k1 where lin: "Linear_new ops rnd k 6 4 False = Inr (lin, k1)"
      "inFeatures lin = 6" "outFeatures lin = 4"
    using Linear_new_ok[of 6 4 ops rnd k] by auto
  obtain l8 k2 where l8: "Linear_new ops rnd k1 4 8 False = Inr (l8, k2)"
      "inFeatures l8 = 4" "outFeatures l8 = 8"
    using Linear_new_ok[of 4 8 ops rnd k1] by auto
  let ?pt = "\<lparr>transformer = tr, inputProj = Some lin, outputProjs = [Identity, Linear l8],
              convLayout = False\<rparr>"
  have cl: "(case p_convLayout options of None \<Rightarrow> False | Some c \<Rightarrow> c) = False"
    using o4 by auto
  have new: "ProjectedTransformer_new ops rnd k options = Inr (?pt, k2)"
    unfolding ProjectedTransformer_new_def Let_def o1 o2 o3 cl
    using tr(1) lin(1) l8(1) by simp
  obtain x2 where x2: "Linear_forward ops lin x = Inr x2" "shape x2 = [2, 3, 4]"
      "int (length (data x2)) = 24"
    using Linear_forward_eq[of x lin ops] shp lin(3) by (auto simp: product_def)
  have w2: "wf x2" using x2 by (simp add: wf_def product_def)
  have t53: "(3 :: int) \<le> 2 ^ 53" by simp
  obtain z where z: "StreamingTransformer_forward ops tr x2
              = Inr (z, tr\<lparr>streamingState :=
                     map_option (\<lambda>s. advance_offsets ops s 3) (streamingState tr)\<rparr>)"
      "shape z = [2, 3, 4]"
    using forward_ok[OF x2(2) w2 t53 tr(2), of ops] x2(2) by auto
  obtain y2 where y2: "Linear_forward ops l8 z = Inr y2" "shape y2 = [2, 3, 8]"
    using Linear_forward_eq[of z l8 ops] z(2) l8(3) by (auto simp: product_def)
  have "ProjectedTransformer_forward ops ?pt x
          = Inr ([z, y2], ?pt\<lparr>transformer := tr\<lparr>streamingState :=
                     map_option (\<lambda>s. advance_offsets ops s 3) (streamingState tr)\<rparr>\<rparr>)"
    unfolding ProjectedTransformer_forward_def
    using x2(1) z(1) y2(1) by simp
  with new z(2) y2(2) show ?thesis by blast
qed

text \<open>
  C9. Whenever a projected transformer made by the constructor returns from \<^verbatim>\<open>forward\<close>,
  it returns as many tensors as output widths were configured, and the tensor at place
  \<open>j\<close> is the projection of the shell's output \<open>z\<close> by the projection made for the \<open>j\<close>-th
  width (transposed back in the channel-first layout): the identity, hence \<open>z\<close> itself,
  when that width is the model width, and otherwise a linear layer whose result has that
  width as its last dimension.  With input width 6, output widths \<open>[4, 8]\<close>, model width 4,
  the sequence-first layout and a valid positional embedding, the constructor succeeds
  and \<^verbatim>\<open>forward\<close> on a well-formed input of shape \<open>[2, 3, 6]\<close> returns exactly two tensors,
  of shapes \<open>[2, 3, 4]\<close> and \<open>[2, 3, 8]\<close>.
\<close>

theorem projected_forward_outputs:
  "(\<forall>pt k' ys pt'.
      ProjectedTransformer_new ops rnd k options = Inr (pt, k')
      \<and> ProjectedTransformer_forward ops pt x = Inr (ys, pt') \<longrightarrow>
      length ys = length (p_outputDimensions options)
      \<and> (\<exists>x2 z tr'. StreamingTransformer_forward ops (transformer pt) x2 = Inr (z, tr')
           \<and> (\<forall>j < length (p_outputDimensions options).
                \<exists>y0. layer_forward ops (outputProjs pt ! j) z = Inr y0
                  \<and> (if convLayout pt then transpose_t ops y0 1 2 = Inr (ys ! j) else ys ! j = y0)
                  \<and> (p_outputDimensions options ! j = p_dModel options \<longrightarrow>
                        outputProjs pt ! j = Identity \<and> y0 = z)
                  \<and> (p_outputDimensions options ! j \<noteq> p_dModel options \<longrightarrow>
                        shape y0 = butlast (shape z) @ [p_outputDimensions options ! j]))))
   \<and> (p_inputDimension options = 6 \<and> p_outputDimensions options = [4, 8]
        \<and> p_dModel options = 4
        \<and> (p_convLayout options = None \<or> p_convLayout options = Some False)
        \<and> or_default (case p_transformerOptions options of None \<Rightarrow> None
                         | Some t \<Rightarrow> t_positionalEmbedding t) ''sin'' \<in> set validEmbeddings
        \<and> wf x \<and> shape x = [2, 3, 6] \<longrightarrow>
        (\<exists>pt k' y1 y2 pt'. ProjectedTransformer_new ops rnd k options = Inr (pt, k')
           \<and> ProjectedTransformer_forward ops pt x = Inr ([y1, y2], pt')
           \<and> shape y1 = [2, 3, 4] \<and> shape y2 = [2, 3, 8]))"
proof (intro conjI allI impI)
  fix pt k' ys pt'
  assume a: "ProjectedTransformer_new ops rnd k options = Inr (pt, k')
      \<and> ProjectedTransformer_forward ops pt x = Inr (ys, pt')"
  let ?ds = "p_outputDimensions options"
  let ?dm = "p_dModel options"
  from a obtain k1 where mk: "make_outputProjs ops rnd k1 ?dm ?ds = Inr (outputProjs pt, k')"
    using ProjectedTransformer_new_result(1) by blast
  from a obtain x2 z tr' where f: "StreamingTransformer_forward ops (transformer pt) x2 = Inr (z, tr')"
      "project_outputs ops (convLayout pt) (outputProjs pt) z = Inr ys"
    using ProjectedTransformer_forward_result by blast
  note m = make_outputProjs_result[OF mk]
  note p = project_outputs_result[OF f(2)]
  show "length ys = length ?ds" using m p by simp
  have "\<exists>y0. layer_forward ops (outputProjs pt ! j) z = Inr y0
                  \<and> (if convLayout pt then transpose_t ops y0 1 2 = Inr (ys ! j) else ys ! j = y0)
                  \<and> (?ds ! j = ?dm \<longrightarrow> outputProjs pt ! j = Identity \<and> y0 = z)
                  \<and> (?ds ! j \<noteq> ?dm \<longrightarrow> shape y0 = butlast (shape z) @ [?ds ! j])"
    if j: "j < length ?ds" for j
  proof -
    from p j m obtain y0 where y0: "layer_forward ops (outputProjs pt ! j) z = Inr y0"
        "if convLayout pt then transpose_t ops y0 1 2 = Inr (ys ! j) else ys ! j = y0"
      by force
    have 1: "outputProjs pt ! j = Identity \<and> y0 = z" if "?ds ! j = ?dm"
    proof -
      have "outputProjs pt ! j = Identity" using m j that by simp
      then show ?thesis using y0(1) by simp
    qed
    have 2: "shape y0 = butlast (shape z) @ [?ds ! j]" if ne: "?ds ! j \<noteq> ?dm"
    proof -
      obtain l where l: "outputProjs pt ! j = Linear l" "outFeatures l = ?ds ! j"
        using m j ne by blast
      then have "Linear_forward ops l z = Inr y0" using y0(1) by simp
      then show ?thesis using Linear_forward_shape l(2) by metis
    qed
    from y0 1 2 show ?thesis by blast
  qed
  then show "\<exists>x2 z tr'. StreamingTransformer_forward ops (transformer pt) x2 = Inr (z, tr')
           \<and> (\<forall>j < length ?ds.
                \<exists>y0. layer_forward ops (outputProjs pt ! j) z = Inr y0
                  \<and> (if convLayout pt then transpose_t ops y0 1 2 = Inr (ys ! j) else ys ! j = y0)
                  \<and> (?ds ! j = ?dm \<longrightarrow> outputProjs pt ! j = Identity \<and> y0 = z)
                  \<and> (?ds ! j \<noteq> ?dm \<longrightarrow> shape y0 = butlast (shape z) @ [?ds ! j]))"
    using f(1) by blast
next
  assume "p_inputDimension options = 6 \<and> p_outputDimensions options = [4, 8]
        \<and> p_dModel options = 4
        \<and> (p_convLayout options = None \<or> p_convLayout options = Some False)
        \<and> or_default (case p_transformerOptions options of None \<Rightarrow> None
                         | Some t \<Rightarrow> t_positionalEmbedding t) ''sin'' \<in> set validEmbeddings
        \<and> wf x \<and> shape x = [2, 3, 6]"
  then show "\<exists>pt k' y1 y2 pt'. ProjectedTransformer_new ops rnd k options = Inr (pt, k')
           \<and> ProjectedTransformer_forward ops pt x = Inr ([y1, y2], pt')
           \<and> shape y1 = [2, 3, 4] \<and> shape y2 = [2, 3, 8]"
    using projected_instance[of options x ops rnd k] by blast
qed

theorem projected_forward_outputs_witness:
  "wf \<lparr>data = replicate 36 (Some (0 :: real)), shape = [2, 3, 6], device = Some ''cpu'',
       dtype = Some ''float32''\<rparr>
   \<and> (\<exists>pt k' y1 y2 pt'.
        ProjectedTransformer_new ideal (\<lambda>i. Some 0) 0
          \<lparr>p_inputDimension = 6, p_outputDimensions = [4, 8], p_dModel = 4,
           p_convLayout = Some False,
           p_transformerOptions = Some \<lparr>t_dModel = None, t_numLayers = Some 1,
             t_positionalEmbedding = None, t_maxPeriod = None, t_positionalScale = None\<rparr>\<rparr>
          = Inr (pt, k')
        \<and> ProjectedTransformer_forward ideal pt
            \<lparr>data = replicate 36 (Some 0), shape = [2, 3, 6], device = Some ''cpu'',
             dtype = Some ''float32''\<rparr> = Inr ([y1, y2], pt')
        \<and> shape y1 = [2, 3, 4] \<and> shape y2 = [2, 3, 8])"
proof -
  let ?x = "\<lparr>data = replicate 36 (Some (0 :: real)), shape = [2, 3, 6 :: int],
             device = Some ''cpu'', dtype = Some ''float32''\<rparr>"
  let ?o = "\<lparr>p_inputDimension = 6, p_outputDimensions = [4, 8], p_dModel = 4,
           p_convLayout = Some False,
           p_transformerOptions = Some \<lparr>t_dModel = None, t_numLayers = Some 1,
             t_positionalEmbedding = None, t_maxPeriod = None :: real option option,
             t_positionalScale = None\<rparr>\<rparr>"
  have w: "wf ?x" by (simp add: wf_def product_def)
  have h: "p_inputDimension ?o = 6 \<and> p_outputDimensions ?o = [4, 8]
        \<and> p_dModel ?o = 4
        \<and> (p_convLayout ?o = None \<or> p_convLayout ?o = Some False)
        \<and> or_default (case p_transformerOptions ?o of None \<Rightarrow> None
                         | Some t \<Rightarrow> t_positionalEmbedding t) ''sin'' \<in> set validEmbeddings
        \<and> wf ?x \<and> shape ?x = [2, 3, 6]"
    using w by (simp add: or_default_def validEmbeddings_def)
  note t = projected_forward_outputs [of ideal "\<lambda>i. Some 0" 0 ?o ?x, THEN conjunct2, THEN mp, OF h]
  from w t show ?thesis by (rule conjI)
qed

end
